theory Spec2Isabelle
  imports Main "HOL-Library.AList" "HOL-Library.Sublist"
begin

section \<open>JSON values and Python errors\<close>

text \<open>
  The four scripts exchange JSON files. A parsed JSON value is what \<^verbatim>\<open>json.loads\<close>
  returns: \<^verbatim>\<open>None\<close>, a bool, an int, a str, a list or a dict. A dict keeps its keys
  in insertion order and has no duplicate key, so it is an association list that is
  read with \<open>map_of\<close> and written with \<open>AList.update\<close> (an existing key keeps its
  place, a new key goes to the end, as in Python). Numbers are Python's unbounded
  ints; non-integer numbers are not part of the model.
\<close>

datatype json =
    JNull
  | JBool bool
  | JInt int
  | JStr string
  | JList "json list"
  | JObj "(string \<times> json) list"

type_synonym dict = "(string \<times> json) list"

datatype error =
    AssertionError string
  | TypeError
  | KeyError string
  | ValueError string
  | IndexError
  | AttributeError

text \<open>\<^verbatim>\<open>d[k]\<close> on a dict raises KeyError for a missing key; \<^verbatim>\<open>d.get(k)\<close> is \<open>map_of d k\<close>.\<close>

definition getitem :: "dict \<Rightarrow> string \<Rightarrow> error + json" where
  "getitem d k = (case map_of d k of None \<Rightarrow> Inl (KeyError k) | Some v \<Rightarrow> Inr v)"

text \<open>\<^verbatim>\<open>isinstance(x, int)\<close> holds for ints and for bools, which count as 1 and 0.\<close>

fun as_int :: "json \<Rightarrow> int option" where
  "as_int (JInt i) = Some i"
| "as_int (JBool b) = Some (if b then 1 else 0)"
| "as_int _ = None"

fun is_str :: "json \<Rightarrow> bool" where
  "is_str (JStr s) = True"
| "is_str _ = False"

fun is_dict :: "json \<Rightarrow> bool" where
  "is_dict (JObj d) = True"
| "is_dict _ = False"

subsection \<open>Formatting\<close>

fun str_nat :: "nat \<Rightarrow> string" where
  "str_nat n =
     (if n < 10 then [''0123456789'' ! n]
      else str_nat (n div 10) @ [''0123456789'' ! (n mod 10)])"

declare str_nat.simps [simp del]

definition str_int :: "int \<Rightarrow> string" where
  "str_int i = (if i < 0 then CHR ''-'' # str_nat (nat (- i)) else str_nat (nat i))"

text \<open>What an f-string prints for an index taken from JSON: \<^verbatim>\<open>True\<close> for a bool.\<close>

fun fmt_index :: "json \<Rightarrow> string" where
  "fmt_index (JBool b) = (if b then ''True'' else ''False'')"
| "fmt_index (JInt i) = str_int i"
| "fmt_index _ = []"

fun join :: "string \<Rightarrow> string list \<Rightarrow> string" where
  "join sep [] = []"
| "join sep [s] = s"
| "join sep (s # t # rest) = s @ sep @ join sep (t # rest)"

section \<open>apply\_translated\_texts.py: merge\_translations\<close>

text \<open>
  The loop over \<^verbatim>\<open>zip(entries, translated_values)\<close>, with \<^verbatim>\<open>merged_entries\<close> as the
  accumulator. Each assertion of the body is a branch.
\<close>

fun merge_loop :: "(json \<times> json) list \<Rightarrow> json list \<Rightarrow> error + json list" where
  "merge_loop [] merged_entries = Inr merged_entries"
| "merge_loop ((entry, text) # rest) merged_entries =
     (case entry of
        JObj e \<Rightarrow>
          (case text of
             JStr s \<Rightarrow>
               merge_loop rest (merged_entries @ [JObj (AList.update ''text'' (JStr s) e)])
           | _ \<Rightarrow> Inl (AssertionError ''translated value must be a string''))
      | _ \<Rightarrow> Inl (AssertionError ''entry must be a dict''))"

definition count_mismatch :: "nat \<Rightarrow> nat \<Rightarrow> string" where
  "count_mismatch n m =
     ''translated array must match entries length; '' @ str_nat n @ '' entries != ''
       @ str_nat m @ '' translated items''"

definition merge_translations :: "json \<Rightarrow> json list \<Rightarrow> error + json" where
  "merge_translations base_map translated_values =
     (case base_map of
        JObj d \<Rightarrow>
          (case map_of d ''entries'' of
             Some (JList entries) \<Rightarrow>
               if length entries \<noteq> length translated_values
               then Inl (AssertionError
                           (count_mismatch (length entries) (length translated_values)))
               else
                 (case merge_loop (zip entries translated_values) [] of
                    Inl err \<Rightarrow> Inl err
                  | Inr merged_entries \<Rightarrow>
                      Inr (JObj (AList.update ''entry_count''
                                   (JInt (int (length merged_entries)))
                                   (AList.update ''entries'' (JList merged_entries) d))))
           | _ \<Rightarrow> Inl (AssertionError ''entries must be a list''))
      | _ \<Rightarrow> Inl AttributeError)"

section \<open>export\_text\_array.py: load\_texts\<close>

text \<open>
  \<^verbatim>\<open>data["entries"]\<close> needs a dict; the loop then iterates whatever it got: a list, the
  keys of a dict, or the characters of a string. \<^verbatim>\<open>"text" in entry\<close> is a key test on a
  dict, a membership test on a list and a substring test on a string.
\<close>

fun iterate :: "json \<Rightarrow> error + json list" where
  "iterate (JList xs) = Inr xs"
| "iterate (JObj d) = Inr (map (\<lambda>kv. JStr (fst kv)) d)"
| "iterate (JStr s) = Inr (map (\<lambda>c. JStr [c]) s)"
| "iterate _ = Inl TypeError"

fun contains_text :: "json \<Rightarrow> error + bool" where
  "contains_text (JObj e) = Inr (map_of e ''text'' \<noteq> None)"
| "contains_text (JList xs) = Inr (JStr ''text'' \<in> set xs)"
| "contains_text (JStr s) = Inr (sublist ''text'' s)"
| "contains_text _ = Inl TypeError"

fun texts_loop :: "json list \<Rightarrow> nat \<Rightarrow> json list \<Rightarrow> error + json list" where
  "texts_loop [] idx texts = Inr texts"
| "texts_loop (entry # rest) idx texts =
     (case contains_text entry of
        Inl err \<Rightarrow> Inl err
      | Inr False \<Rightarrow> Inl (AssertionError (''Entry '' @ str_nat idx @ '' missing text field''))
      | Inr True \<Rightarrow>
          (case entry of
             JObj e \<Rightarrow>
               (case getitem e ''text'' of
                  Inl err \<Rightarrow> Inl err
                | Inr t \<Rightarrow> texts_loop rest (idx + 1) (texts @ [t]))
           | _ \<Rightarrow> Inl TypeError))"

definition load_texts :: "json \<Rightarrow> error + json list" where
  "load_texts data =
     (case data of
        JObj d \<Rightarrow>
          (case getitem d ''entries'' of
             Inl err \<Rightarrow> Inl err
           | Inr entries \<Rightarrow>
               (case iterate entries of
                  Inl err \<Rightarrow> Inl err
                | Inr items \<Rightarrow> texts_loop items 1 []))
      | _ \<Rightarrow> Inl TypeError)"

section \<open>The document\<close>

text \<open>
  The document object that \<^verbatim>\<open>Presentation(path)\<close> loads: slides, each an ordered
  sequence of shapes; a group holds a nested sequence of shapes. A text frame is a
  sequence of paragraphs and a paragraph a sequence of runs, a run being its text.
  A table has its grid columns and its rows of cells, a cell being the text frame that
  \<^verbatim>\<open>cell.text_frame\<close> gives. A chart shape names its backing part; the parts live in
  a store keyed by part name, so that two shapes naming one part share its text nodes.
  \<^verbatim>\<open>has_text_frame\<close>, \<^verbatim>\<open>has_table\<close> and \<^verbatim>\<open>has_chart\<close> are read independently by the
  code, hence three optional fields rather than one variant. Every shape has a shape
  type here (possibly \<^verbatim>\<open>None\<close>): a shape for which the library's \<^verbatim>\<open>shape_type\<close> property
  raises is outside the model, and the scripts stop on it with that exception.
\<close>

type_synonym para = "string list"

type_synonym text_frame = "para list"

record table =
  columns :: nat
  rows :: "text_frame list list"

record node =
  node_xpath :: string
  node_text :: "string option"

datatype mso_shape_type =
    AUTO_SHAPE | CALLOUT | CANVAS | CHART | COMMENT | DIAGRAM | EMBEDDED_OLE_OBJECT
  | FORM_CONTROL | FREEFORM | GROUP | IGX_GRAPHIC | INK | INK_COMMENT | LINE
  | LINKED_OLE_OBJECT | LINKED_PICTURE | MEDIA | OLE_CONTROL_OBJECT | PICTURE
  | PLACEHOLDER | SCRIPT_ANCHOR | TABLE | TEXT_BOX | TEXT_EFFECT | WEB_VIDEO | MIXED

datatype shape =
  Shape (shape_id: int) (shape_name: string) (shape_type: "mso_shape_type option")
        (text_frame: "text_frame option") (table: "table option")
        (chart: "string option") (group_shapes: "shape list")

record slide =
  slide_id :: int
  slide_layout :: "string option"
  slide_shapes :: "shape list"

record presentation =
  slides :: "slide list"
  parts :: "string \<Rightarrow> node list"

section \<open>build\_text\_map.py: the extractor\<close>

fun mso_name :: "mso_shape_type \<Rightarrow> string" where
  "mso_name AUTO_SHAPE = ''AUTO_SHAPE''"
| "mso_name CALLOUT = ''CALLOUT''"
| "mso_name CANVAS = ''CANVAS''"
| "mso_name CHART = ''CHART''"
| "mso_name COMMENT = ''COMMENT''"
| "mso_name DIAGRAM = ''DIAGRAM''"
| "mso_name EMBEDDED_OLE_OBJECT = ''EMBEDDED_OLE_OBJECT''"
| "mso_name FORM_CONTROL = ''FORM_CONTROL''"
| "mso_name FREEFORM = ''FREEFORM''"
| "mso_name GROUP = ''GROUP''"
| "mso_name IGX_GRAPHIC = ''IGX_GRAPHIC''"
| "mso_name INK = ''INK''"
| "mso_name INK_COMMENT = ''INK_COMMENT''"
| "mso_name LINE = ''LINE''"
| "mso_name LINKED_OLE_OBJECT = ''LINKED_OLE_OBJECT''"
| "mso_name LINKED_PICTURE = ''LINKED_PICTURE''"
| "mso_name MEDIA = ''MEDIA''"
| "mso_name OLE_CONTROL_OBJECT = ''OLE_CONTROL_OBJECT''"
| "mso_name PICTURE = ''PICTURE''"
| "mso_name PLACEHOLDER = ''PLACEHOLDER''"
| "mso_name SCRIPT_ANCHOR = ''SCRIPT_ANCHOR''"
| "mso_name TABLE = ''TABLE''"
| "mso_name TEXT_BOX = ''TEXT_BOX''"
| "mso_name TEXT_EFFECT = ''TEXT_EFFECT''"
| "mso_name WEB_VIDEO = ''WEB_VIDEO''"
| "mso_name MIXED = ''MIXED''"

definition shape_type_name :: "shape \<Rightarrow> string" where
  "shape_type_name shape =
     (case shape_type shape of Some t \<Rightarrow> mso_name t | None \<Rightarrow> ''UNKNOWN_None'')"

text \<open>\<^verbatim>\<open>d.update(other)\<close>: the keys of \<open>other\<close> are written in their order.\<close>

definition dict_update :: "dict \<Rightarrow> dict \<Rightarrow> dict" where
  "dict_update d other = foldl (\<lambda>acc kv. AList.update (fst kv) (snd kv) acc) d other"

definition run_entry ::
  "dict \<Rightarrow> dict \<Rightarrow> string \<Rightarrow> nat \<Rightarrow> nat \<Rightarrow> string list \<Rightarrow> string \<Rightarrow> json" where
  "run_entry base_entry extra_fields container para_idx run_idx run_segments text =
     JObj (dict_update (dict_update base_entry extra_fields)
        [(''container'', JStr container),
         (''paragraph_index'', JInt (int para_idx)),
         (''run_index'', JInt (int run_idx)),
         (''path'', JStr (join ''.'' run_segments)),
         (''text'', JStr text)])"

text \<open>
  The two nested \<^verbatim>\<open>for ... in enumerate(..., start=1)\<close> loops of \<^verbatim>\<open>record_runs\<close>, each a
  left fold over the enumerated sequence with the \<^verbatim>\<open>entries\<close> list as the accumulator;
  \<^verbatim>\<open>continue\<close> leaves the accumulator as it is.
\<close>

definition record_runs ::
  "text_frame \<Rightarrow> dict \<Rightarrow> string list \<Rightarrow> string \<Rightarrow> dict \<Rightarrow> json list \<Rightarrow> json list" where
  "record_runs frame base_entry path_segments container extra_fields entries =
     (let tf_segments = path_segments @ [container] in
      foldl (\<lambda>entries. \<lambda>(para_idx, para).
          let para_segments = tf_segments @ [''paragraph['' @ str_nat para_idx @ '']''] in
          foldl (\<lambda>entries. \<lambda>(run_idx, run).
              let text = run in
              if text = [] then entries
              else
                let run_segments = para_segments @ [''run['' @ str_nat run_idx @ '']'']
                in entries @ [run_entry base_entry extra_fields container para_idx run_idx
                                run_segments text])
            entries (enumerate 1 para))
        entries (enumerate 1 frame))"

text \<open>
  The table branch of \<^verbatim>\<open>walk_shapes\<close>: rows and cells in row-major order, each cell's
  text frame handed to \<^verbatim>\<open>record_runs\<close> with its row and column as extra fields.
\<close>

definition record_table ::
  "table \<Rightarrow> dict \<Rightarrow> string list \<Rightarrow> json list \<Rightarrow> json list" where
  "record_table tbl base_entry shape_segments entries =
     (let table_segments = shape_segments @ [''table''] in
      foldl (\<lambda>entries. \<lambda>(row_idx, row).
          foldl (\<lambda>entries. \<lambda>(col_idx, cell).
              let cell_segments =
                    table_segments @ [''cell['' @ str_nat row_idx @ '','' @ str_nat col_idx @ '']''];
                  extra = [(''table_row'', JInt (int row_idx)),
                           (''table_col'', JInt (int col_idx))]
              in record_runs cell base_entry cell_segments ''table_cell'' extra entries)
            entries (enumerate 1 row))
        entries (enumerate 1 (rows tbl)))"

text \<open>
  The state of an extraction: the \<^verbatim>\<open>entries\<close> list built so far, and the log of
  the calls \<^verbatim>\<open>chart_part._element.xpath(".//a:t")\<close> made so far, by part name. The log is
  the one effect of the extractor on the document library besides reading it.
\<close>

record extraction =
  acc_entries :: "json list"
  xpath_queries :: "string list"

definition chart_entry :: "dict \<Rightarrow> string \<Rightarrow> nat \<Rightarrow> node \<Rightarrow> string \<Rightarrow> json" where
  "chart_entry base_entry partname chart_idx node text =
     JObj (dict_update base_entry
        [(''container'', JStr ''chart_part''),
         (''chart_partname'', JStr partname),
         (''chart_text_index'', JInt (int chart_idx)),
         (''chart_xpath'', JStr (node_xpath node)),
         (''text'', JStr text)])"

definition record_chart_text ::
  "(string \<Rightarrow> node list) \<Rightarrow> shape \<Rightarrow> dict \<Rightarrow> extraction \<Rightarrow> extraction" where
  "record_chart_text store shape base_entry st =
     (case chart shape of
        None \<Rightarrow> st
      | Some partname \<Rightarrow>
          let nodes = store partname in
          st\<lparr>xpath_queries := xpath_queries st @ [partname],
             acc_entries :=
               foldl (\<lambda>entries. \<lambda>(chart_idx, node).
                   case node_text node of
                     None \<Rightarrow> entries
                   | Some text \<Rightarrow>
                       if text = [] then entries
                       else entries @ [chart_entry base_entry partname chart_idx node text])
                 (acc_entries st) (enumerate 1 nodes)\<rparr>)"

record slide_meta =
  meta_slide_index :: nat
  meta_slide_id :: int
  meta_slide_layout :: "string option"

fun json_opt_str :: "string option \<Rightarrow> json" where
  "json_opt_str None = JNull"
| "json_opt_str (Some s) = JStr s"

definition base_entry_of ::
  "slide_meta \<Rightarrow> shape \<Rightarrow> nat list \<Rightarrow> string list \<Rightarrow> dict" where
  "base_entry_of slide_meta shape chain shape_segments =
     [(''slide_index'', JInt (int (meta_slide_index slide_meta))),
      (''slide_id'', JInt (meta_slide_id slide_meta)),
      (''slide_layout'', json_opt_str (meta_slide_layout slide_meta)),
      (''shape_id'', JInt (shape_id shape)),
      (''shape_name'', JStr (shape_name shape)),
      (''shape_type'', JStr (shape_type_name shape)),
      (''shape_index_chain'', JList (map (\<lambda>i. JInt (int i)) chain)),
      (''shape_path'', JStr (join ''.'' shape_segments))]"

text \<open>
  \<^verbatim>\<open>walk_shapes\<close>: the loop over \<^verbatim>\<open>enumerate(shape_iter, start=1)\<close> carries the running
  index; a group is entered at the point where it is met, before its siblings.
\<close>

fun walk_shapes ::
  "(string \<Rightarrow> node list) \<Rightarrow> shape list \<Rightarrow> nat \<Rightarrow> string list \<Rightarrow> nat list \<Rightarrow> slide_meta
     \<Rightarrow> extraction \<Rightarrow> extraction" where
  "walk_shapes store [] shape_idx path_segments index_chain slide_meta st = st"
| "walk_shapes store (Shape sid nm ty tf tb ch children # rest) shape_idx path_segments
       index_chain slide_meta st =
     (let shape = Shape sid nm ty tf tb ch children;
          shape_segments = path_segments @ [''shape['' @ str_nat shape_idx @ '']''];
          chain = index_chain @ [shape_idx];
          base_entry = base_entry_of slide_meta shape chain shape_segments;
          st1 = (case text_frame shape of
                   Some frame \<Rightarrow>
                     st\<lparr>acc_entries :=
                          record_runs frame base_entry shape_segments ''text_frame'' []
                            (acc_entries st)\<rparr>
                 | None \<Rightarrow> st);
          st2 = (case table shape of
                   Some tbl \<Rightarrow>
                     st1\<lparr>acc_entries :=
                           record_table tbl base_entry shape_segments (acc_entries st1)\<rparr>
                 | None \<Rightarrow> st1);
          st3 = record_chart_text store shape base_entry st2;
          st4 = (if shape_type shape = Some GROUP
                 then walk_shapes store children 1 shape_segments chain slide_meta st3
                 else st3)
      in walk_shapes store rest (shape_idx + 1) path_segments index_chain slide_meta st4)"

definition walk_slides :: "presentation \<Rightarrow> extraction" where
  "walk_slides presentation =
     foldl (\<lambda>st. \<lambda>(slide_idx, slide).
         walk_shapes (parts presentation) (slide_shapes slide) 1
           [''slide['' @ str_nat slide_idx @ '']''] []
           \<lparr>meta_slide_index = slide_idx, meta_slide_id = slide_id slide,
            meta_slide_layout = slide_layout slide\<rparr> st)
       \<lparr>acc_entries = [], xpath_queries = []\<rparr> (enumerate 1 (slides presentation))"

definition build_text_map :: "string \<Rightarrow> presentation \<Rightarrow> json" where
  "build_text_map pptx_path presentation =
     (let entries = acc_entries (walk_slides presentation) in
      JObj [(''source'', JStr pptx_path),
            (''slide_count'', JInt (int (length (slides presentation)))),
            (''entry_count'', JInt (int (length entries))),
            (''entries'', JList entries)])"

section \<open>apply\_text\_map\_to\_pptx.py: the projector\<close>

definition load_json :: "json \<Rightarrow> error + dict" where
  "load_json data =
     (case data of
        JObj d \<Rightarrow>
          (case map_of d ''entries'' of
             Some (JList entries) \<Rightarrow> Inr d
           | _ \<Rightarrow> Inl (AssertionError ''Map JSON missing entries array''))
      | _ \<Rightarrow> Inl (AssertionError ''Map JSON must be an object''))"

text \<open>
  \<^verbatim>\<open>resolve_shape\<close>: the loop over \<^verbatim>\<open>enumerate(chain, start=1)\<close> with its variables
  \<^verbatim>\<open>shapes\<close> and \<^verbatim>\<open>target\<close>; \<open>n\<close> is \<^verbatim>\<open>len(chain)\<close>. The comparison
  \<^verbatim>\<open>1 <= idx\<close> raises TypeError for an index that is no number.
\<close>

fun resolve_loop ::
  "shape list \<Rightarrow> shape option \<Rightarrow> nat \<Rightarrow> nat \<Rightarrow> json list \<Rightarrow> error + shape option" where
  "resolve_loop shapes target depth n [] = Inr target"
| "resolve_loop shapes target depth n (idx # rest) =
     (case as_int idx of
        None \<Rightarrow> Inl TypeError
      | Some i \<Rightarrow>
          if \<not> (1 \<le> i \<and> i \<le> int (length shapes))
          then Inl (AssertionError (''Shape index '' @ fmt_index idx @ '' out of range at depth ''
                                      @ str_nat depth))
          else
            let target = shapes ! nat (i - 1) in
            if depth < n then
              if shape_type target \<noteq> Some GROUP
              then Inl (AssertionError ''Intermediate shape must be a group'')
              else resolve_loop (group_shapes target) (Some target) (depth + 1) n rest
            else resolve_loop shapes (Some target) (depth + 1) n rest)"

definition resolve_shape :: "slide \<Rightarrow> json list \<Rightarrow> error + shape" where
  "resolve_shape slide chain =
     (if chain = [] then Inl (AssertionError ''shape_index_chain must not be empty'')
      else
        (case resolve_loop (slide_shapes slide) None 1 (length chain) chain of
           Inl err \<Rightarrow> Inl err
         | Inr None \<Rightarrow> Inl (AssertionError ''Failed to resolve shape'')
         | Inr (Some target) \<Rightarrow> Inr target))"

text \<open>
  The \<^verbatim>\<open>text\<close> setter of a run does not store a str as it is given: it first rewrites
  every control character from U+0000 to U+0008 and from U+000B to U+001F as
  \<^verbatim>\<open>_xHHHH_\<close>, four upper-case hexadecimal digits of its code. Tab and line feed are
  kept. The getter returns what is stored. A string is a list of 8-bit characters
  here; characters beyond that range are not part of the model.
\<close>

definition escaped_char :: "char \<Rightarrow> bool" where
  "escaped_char c \<longleftrightarrow>
     (of_char c :: nat) \<le> 8 \<or> (11 \<le> (of_char c :: nat) \<and> (of_char c :: nat) \<le> 31)"

definition hex4 :: "nat \<Rightarrow> string" where
  "hex4 n =
     [''0123456789ABCDEF'' ! (n div 4096 mod 16), ''0123456789ABCDEF'' ! (n div 256 mod 16),
      ''0123456789ABCDEF'' ! (n div 16 mod 16), ''0123456789ABCDEF'' ! (n mod 16)]"

definition escape :: "string \<Rightarrow> string" where
  "escape s =
     concat (map (\<lambda>c. if escaped_char c then ''_x'' @ hex4 (of_char c) @ ''_'' else [c]) s)"

text \<open>
  The \<^verbatim>\<open>text\<close> setter of an element of a chart part takes \<^verbatim>\<open>None\<close> or a str that is
  XML-compatible: no character below U+0020 other than tab, line feed and carriage
  return. It removes the element's text first and converts the value afterwards, so a
  value it refuses (ValueError for such a str, TypeError for a value of another type)
  leaves the element without text.
\<close>

definition xml_compatible :: "string \<Rightarrow> bool" where
  "xml_compatible s \<longleftrightarrow>
     (\<forall>c\<in>set s. 32 \<le> (of_char c :: nat) \<or> (of_char c :: nat) \<in> {9, 10, 13})"

text \<open>
  \<^verbatim>\<open>set_run_text\<close> writes one run of a text frame. The run's \<^verbatim>\<open>text\<close> setter raises
  TypeError for a value that is no str, before it touches the run. The function
  returns the text frame as it is after the assignment; it changes nothing when it
  raises.
\<close>

definition set_run_text :: "text_frame \<Rightarrow> json \<Rightarrow> json \<Rightarrow> json \<Rightarrow> error + text_frame" where
  "set_run_text paragraphs paragraph_index run_index text =
     (case as_int paragraph_index of
        None \<Rightarrow> Inl TypeError
      | Some p \<Rightarrow>
          if \<not> (1 \<le> p \<and> p \<le> int (length paragraphs))
          then Inl (AssertionError ''paragraph_index out of range'')
          else
            let runs = paragraphs ! nat (p - 1) in
            (case as_int run_index of
               None \<Rightarrow> Inl TypeError
             | Some r \<Rightarrow>
                 if \<not> (1 \<le> r \<and> r \<le> int (length runs))
                 then Inl (AssertionError ''run_index out of range'')
                 else
                   (case text of
                      JStr s \<Rightarrow>
                        Inr (paragraphs[nat (p - 1) := runs[nat (r - 1) := escape s]])
                    | _ \<Rightarrow> Inl TypeError)))"

definition on_value :: "error + 'a \<Rightarrow> ('a \<Rightarrow> error + 'b) \<Rightarrow> error + 'b" where
  "on_value r f = (case r of Inl err \<Rightarrow> Inl err | Inr v \<Rightarrow> f v)"

fun set_text_frame :: "text_frame \<Rightarrow> shape \<Rightarrow> shape" where
  "set_text_frame frame (Shape sid nm ty tf tb ch children) =
     Shape sid nm ty (Some frame) tb ch children"

fun set_table :: "table \<Rightarrow> shape \<Rightarrow> shape" where
  "set_table tbl (Shape sid nm ty tf tb ch children) =
     Shape sid nm ty tf (Some tbl) ch children"

fun set_group_shapes :: "shape list \<Rightarrow> shape \<Rightarrow> shape" where
  "set_group_shapes shapes (Shape sid nm ty tf tb ch children) =
     Shape sid nm ty tf tb ch shapes"

text \<open>
  The entry appliers for text frames and table cells return the shape as it is after
  the run has been written. Their arguments are evaluated left to right, so a missing
  key raises KeyError in that order. \<^verbatim>\<open>table.cell(r, c)\<close> indexes row \<open>r\<close>'s own cells
  and raises IndexError when the row is shorter than the grid.
\<close>

definition apply_text_frame_entry :: "shape \<Rightarrow> dict \<Rightarrow> error + shape" where
  "apply_text_frame_entry shape entry =
     (case text_frame shape of
        None \<Rightarrow> Inl (AssertionError ''Shape lacks text_frame'')
      | Some frame \<Rightarrow>
          on_value (getitem entry ''paragraph_index'') (\<lambda>paragraph_index.
          on_value (getitem entry ''run_index'') (\<lambda>run_index.
          on_value (getitem entry ''text'') (\<lambda>text.
          on_value (set_run_text frame paragraph_index run_index text) (\<lambda>frame'.
          Inr (set_text_frame frame' shape))))))"

definition apply_table_cell_entry :: "shape \<Rightarrow> dict \<Rightarrow> error + shape" where
  "apply_table_cell_entry shape entry =
     (case table shape of
        None \<Rightarrow> Inl (AssertionError ''Shape lacks table'')
      | Some tbl \<Rightarrow>
          (case (Option.bind (map_of entry ''table_row'') as_int,
                 Option.bind (map_of entry ''table_col'') as_int) of
             (Some row_idx, Some col_idx) \<Rightarrow>
               if \<not> (1 \<le> row_idx \<and> row_idx \<le> int (length (rows tbl)))
               then Inl (AssertionError ''table_row out of range'')
               else if \<not> (1 \<le> col_idx \<and> col_idx \<le> int (columns tbl))
               then Inl (AssertionError ''table_col out of range'')
               else
                 let row = rows tbl ! nat (row_idx - 1) in
                 if \<not> nat (col_idx - 1) < length row then Inl IndexError
                 else
                   let cell = row ! nat (col_idx - 1) in
                   on_value (getitem entry ''paragraph_index'') (\<lambda>paragraph_index.
                   on_value (getitem entry ''run_index'') (\<lambda>run_index.
                   on_value (getitem entry ''text'') (\<lambda>text.
                   on_value (set_run_text cell paragraph_index run_index text) (\<lambda>cell'.
                   Inr (set_table
                          (tbl\<lparr>rows := (rows tbl)[nat (row_idx - 1) :=
                                           row[nat (col_idx - 1) := cell']]\<rparr>)
                          shape)))))
           | _ \<Rightarrow> Inl (AssertionError ''Missing table indices'')))"

text \<open>
  The state of a projection: the document being rewritten in memory, the chart cache
  (a dict from part name to the list of that part's text nodes) and the log of the
  \<^verbatim>\<open>xpath\<close> calls made, by part name. A cached node is a reference to an element of
  the part, here the part's name and the element's position; writing through it
  writes the store.
\<close>

type_synonym node_ref = "string \<times> nat"

record pstate =
  doc :: presentation
  chart_cache :: "(string \<times> node_ref list) list"
  part_queries :: "string list"

definition xpath_nodes :: "presentation \<Rightarrow> string \<Rightarrow> node_ref list" where
  "xpath_nodes presentation partname =
     map (\<lambda>i. (partname, i)) [0..<length (parts presentation partname)]"

definition get_chart_nodes :: "string \<Rightarrow> pstate \<Rightarrow> node_ref list \<times> pstate" where
  "get_chart_nodes key st =
     (case map_of (chart_cache st) key of
        Some nodes \<Rightarrow> (nodes, st)
      | None \<Rightarrow>
          let nodes = xpath_nodes (doc st) key in
          (nodes, st\<lparr>chart_cache := AList.update key nodes (chart_cache st),
                     part_queries := part_queries st @ [key]\<rparr>))"

definition set_node_text :: "node_ref \<Rightarrow> string option \<Rightarrow> presentation \<Rightarrow> presentation" where
  "set_node_text ref text presentation =
     (let nodes = parts presentation (fst ref) in
      presentation\<lparr>parts := (parts presentation)
        (fst ref := nodes[snd ref := (nodes ! snd ref)\<lparr>node_text := text\<rparr>])\<rparr>)"

text \<open>
  \<^verbatim>\<open>apply_chart_entry\<close>. The cache may have been filled before a later assertion fails,
  and the element's setter clears the element before it refuses a value, so the state
  is returned with the error.
\<close>

definition xml_incompatible :: string where
  "xml_incompatible =
     ''All strings must be XML compatible: Unicode or ASCII, no NULL bytes or control characters''"

definition apply_chart_entry :: "shape \<Rightarrow> dict \<Rightarrow> pstate \<Rightarrow> error option \<times> pstate" where
  "apply_chart_entry shape entry st =
     (case chart shape of
        None \<Rightarrow> (Some (AssertionError ''Shape lacks chart''), st)
      | Some partname \<Rightarrow>
          (case getitem entry ''chart_partname'' of
             Inl err \<Rightarrow> (Some err, st)
           | Inr recorded \<Rightarrow>
               if JStr partname \<noteq> recorded
               then (Some (AssertionError ''Chart part mismatch''), st)
               else
                 (case get_chart_nodes partname st of (nodes, st') \<Rightarrow>
                    (case getitem entry ''chart_text_index'' of
                       Inl err \<Rightarrow> (Some err, st')
                     | Inr chart_idx \<Rightarrow>
                         (case as_int chart_idx of
                            None \<Rightarrow> (Some (AssertionError ''Invalid chart_text_index''), st')
                          | Some i \<Rightarrow>
                              if \<not> 1 \<le> i
                              then (Some (AssertionError ''Invalid chart_text_index''), st')
                              else if \<not> i \<le> int (length nodes)
                              then (Some (AssertionError ''chart_text_index out of range''), st')
                              else
                                (case getitem entry ''text'' of
                                   Inl err \<Rightarrow> (Some err, st')
                                 | Inr (JStr s) \<Rightarrow>
                                     if xml_compatible s
                                     then (None, st'\<lparr>doc := set_node_text (nodes ! nat (i - 1))
                                                               (Some s) (doc st')\<rparr>)
                                     else (Some (ValueError xml_incompatible),
                                           st'\<lparr>doc := set_node_text (nodes ! nat (i - 1))
                                                         None (doc st')\<rparr>)
                                 | Inr JNull \<Rightarrow>
                                     (None, st'\<lparr>doc := set_node_text (nodes ! nat (i - 1))
                                                         None (doc st')\<rparr>)
                                 | Inr _ \<Rightarrow>
                                     (Some TypeError,
                                      st'\<lparr>doc := set_node_text (nodes ! nat (i - 1))
                                                    None (doc st')\<rparr>)))))))"

text \<open>
  The shape that \<^verbatim>\<open>resolve_shape\<close> returns is the object inside the document, and the
  appliers write it in place. Shapes form a tree, so writing in place is replacing the
  shape at the end of the resolved chain.
\<close>

definition position :: "json \<Rightarrow> nat" where
  "position idx = (case as_int idx of Some i \<Rightarrow> nat (i - 1) | None \<Rightarrow> 0)"

fun replace_shape :: "shape list \<Rightarrow> json list \<Rightarrow> shape \<Rightarrow> shape list" where
  "replace_shape shapes [] new = shapes"
| "replace_shape shapes [idx] new = shapes[position idx := new]"
| "replace_shape shapes (idx # next_idx # rest) new =
     shapes[position idx :=
       set_group_shapes
         (replace_shape (group_shapes (shapes ! position idx)) (next_idx # rest) new)
         (shapes ! position idx)]"

definition put_shape :: "nat \<Rightarrow> json list \<Rightarrow> shape \<Rightarrow> pstate \<Rightarrow> pstate" where
  "put_shape k chain new st =
     (let presentation = doc st; slide = slides presentation ! k in
      st\<lparr>doc := presentation\<lparr>slides := (slides presentation)
        [k := slide\<lparr>slide_shapes := replace_shape (slide_shapes slide) chain new\<rparr>]\<rparr>\<rparr>)"

definition apply_entry :: "dict \<Rightarrow> pstate \<Rightarrow> error option \<times> pstate" where
  "apply_entry entry st =
     (let presentation = doc st in
      case getitem entry ''slide_index'' of
        Inl err \<Rightarrow> (Some err, st)
      | Inr slide_index \<Rightarrow>
          (case as_int slide_index of
             None \<Rightarrow> (Some (AssertionError ''slide_index out of range''), st)
           | Some k \<Rightarrow>
               if \<not> (1 \<le> k \<and> k \<le> int (length (slides presentation)))
               then (Some (AssertionError ''slide_index out of range''), st)
               else
                 let slide = slides presentation ! nat (k - 1) in
                 (case getitem entry ''shape_index_chain'' of
                    Inl err \<Rightarrow> (Some err, st)
                  | Inr (JList shape_chain) \<Rightarrow>
                      (case resolve_shape slide shape_chain of
                         Inl err \<Rightarrow> (Some err, st)
                       | Inr shape \<Rightarrow>
                           (case getitem entry ''container'' of
                              Inl err \<Rightarrow> (Some err, st)
                            | Inr (JStr container) \<Rightarrow>
                                if container = ''text_frame'' then
                                  (case apply_text_frame_entry shape entry of
                                     Inl err \<Rightarrow> (Some err, st)
                                   | Inr shape' \<Rightarrow>
                                       (None, put_shape (nat (k - 1)) shape_chain shape' st))
                                else if container = ''table_cell'' then
                                  (case apply_table_cell_entry shape entry of
                                     Inl err \<Rightarrow> (Some err, st)
                                   | Inr shape' \<Rightarrow>
                                       (None, put_shape (nat (k - 1)) shape_chain shape' st))
                                else if container = ''chart_part'' then
                                  apply_chart_entry shape entry st
                                else
                                  (Some (ValueError (''Unsupported container type: ''
                                                       @ container)), st)
                            | Inr _ \<Rightarrow> (Some (AssertionError ''container must be string''), st)))
                  | Inr _ \<Rightarrow> (Some (AssertionError ''shape_index_chain missing''), st))))"

text \<open>
  \<^verbatim>\<open>apply_text_map\<close>. The loop over the entries stops at the first entry that raises.
  The result records the exception that ended the run, if any, the state in memory at
  that point, and what \<^verbatim>\<open>presentation.save(output_path)\<close> wrote: \<open>None\<close> when the
  statement was not reached. After \<^verbatim>\<open>load_json\<close> has returned, \<^verbatim>\<open>text_map["entries"]\<close> is
  a list, so the last branch below is never taken.
\<close>

fun apply_entries :: "json list \<Rightarrow> pstate \<Rightarrow> error option \<times> pstate" where
  "apply_entries [] st = (None, st)"
| "apply_entries (entry # rest) st =
     (case entry of
        JObj e \<Rightarrow>
          (case apply_entry e st of
             (Some err, st') \<Rightarrow> (Some err, st')
           | (None, st') \<Rightarrow> apply_entries rest st')
      | _ \<Rightarrow> (Some (AssertionError ''Entry must be object''), st))"

record projection =
  raised :: "error option"
  memory :: pstate
  saved :: "presentation option"

definition check_entry_count :: "dict \<Rightarrow> json list \<Rightarrow> error option" where
  "check_entry_count text_map entries =
     (case map_of text_map ''entry_count'' of
        None \<Rightarrow> None
      | Some JNull \<Rightarrow> None
      | Some expected_entry_count \<Rightarrow>
          (case as_int expected_entry_count of
             None \<Rightarrow> Some (AssertionError ''entry_count must be an integer when present'')
           | Some n \<Rightarrow>
               if n \<noteq> int (length entries)
               then Some (AssertionError ''entry_count does not match actual number of entries'')
               else None))"

definition apply_text_map :: "presentation \<Rightarrow> json \<Rightarrow> projection" where
  "apply_text_map presentation data =
     (let st0 = \<lparr>doc = presentation, chart_cache = [], part_queries = []\<rparr> in
      case load_json data of
        Inl err \<Rightarrow> \<lparr>raised = Some err, memory = st0, saved = None\<rparr>
      | Inr text_map \<Rightarrow>
          (case map_of text_map ''entries'' of
             Some (JList entries) \<Rightarrow>
               (case check_entry_count text_map entries of
                  Some err \<Rightarrow> \<lparr>raised = Some err, memory = st0, saved = None\<rparr>
                | None \<Rightarrow>
                    (case apply_entries entries st0 of
                       (Some err, st) \<Rightarrow> \<lparr>raised = Some err, memory = st, saved = None\<rparr>
                     | (None, st) \<Rightarrow> \<lparr>raised = None, memory = st, saved = Some (doc st)\<rparr>))
           | _ \<Rightarrow> \<lparr>raised = Some TypeError, memory = st0, saved = None\<rparr>))"

section \<open>Notions used in the statements and proofs\<close>

text \<open>The fields of an entry that is a dict; a value that is no dict has none.\<close>

fun the_dict :: "json \<Rightarrow> dict" where
  "the_dict (JObj d) = d"
| "the_dict _ = []"

text \<open>The path segments of the run at a position: what \<^verbatim>\<open>run_segments\<close> holds there.\<close>

definition run_path :: "string list \<Rightarrow> string \<Rightarrow> nat \<Rightarrow> nat \<Rightarrow> string list" where
  "run_path path_segments container para_idx run_idx =
     ((path_segments @ [container]) @ [''paragraph['' @ str_nat para_idx @ '']''])
       @ [''run['' @ str_nat run_idx @ '']'']"

text \<open>
  The entries of a text frame, in order: one for each non-empty run, with the run's
  position in its paragraph and the paragraph's position in the frame.
\<close>

definition run_entries :: "text_frame \<Rightarrow> dict \<Rightarrow> string list \<Rightarrow> string \<Rightarrow> dict \<Rightarrow> json list" where
  "run_entries frame base_entry segs container extra =
     [run_entry base_entry extra container (Suc p) (Suc r)
        (run_path segs container (Suc p) (Suc r)) (frame ! p ! r).
      p \<leftarrow> [0..<length frame], r \<leftarrow> [0..<length (frame ! p)], frame ! p ! r \<noteq> []]"

text \<open>
  Following a chain of group positions from a shape sequence gives the shape sequence
  of the innermost group; it is undefined when a position is out of range or names a
  shape that is no group.
\<close>

fun descend :: "shape list \<Rightarrow> nat list \<Rightarrow> shape list option" where
  "descend shapes [] = Some shapes"
| "descend shapes (i # rest) =
     (if 1 \<le> i \<and> i \<le> length shapes \<and> shape_type (shapes ! (i - 1)) = Some GROUP
      then descend (group_shapes (shapes ! (i - 1))) rest else None)"

text \<open>
  An entry names a run of a text frame and carries that run's text; an entry names a
  text of a shape (a run of its text frame, a run of a cell of its table, a text node
  of its chart part) and carries that text, which is not empty; an entry addresses a
  text below a shape sequence on slide \<open>k\<close>.
\<close>

definition names_run :: "text_frame \<Rightarrow> dict \<Rightarrow> string \<Rightarrow> bool" where
  "names_run frame e s \<longleftrightarrow>
     (\<exists>p r. map_of e ''paragraph_index'' = Some (JInt (int (Suc p)))
          \<and> map_of e ''run_index'' = Some (JInt (int (Suc r)))
          \<and> p < length frame \<and> r < length (frame ! p) \<and> frame ! p ! r = s)"

definition names_text :: "(string \<Rightarrow> node list) \<Rightarrow> shape \<Rightarrow> dict \<Rightarrow> bool" where
  "names_text store shape e \<longleftrightarrow>
     (\<exists>s. s \<noteq> [] \<and> map_of e ''text'' = Some (JStr s) \<and>
        ((map_of e ''container'' = Some (JStr ''text_frame'')
            \<and> (\<exists>frame. text_frame shape = Some frame \<and> names_run frame e s))
       \<or> (map_of e ''container'' = Some (JStr ''table_cell'')
            \<and> (\<exists>tbl i j. table shape = Some tbl
                  \<and> map_of e ''table_row'' = Some (JInt (int (Suc i)))
                  \<and> map_of e ''table_col'' = Some (JInt (int (Suc j)))
                  \<and> i < length (rows tbl) \<and> j < length (rows tbl ! i)
                  \<and> names_run (rows tbl ! i ! j) e s))
       \<or> (map_of e ''container'' = Some (JStr ''chart_part'')
            \<and> (\<exists>pn n. chart shape = Some pn
                  \<and> map_of e ''chart_partname'' = Some (JStr pn)
                  \<and> map_of e ''chart_text_index'' = Some (JInt (int (Suc n)))
                  \<and> n < length (store pn) \<and> node_text (store pn ! n) = Some s))))"

definition addresses :: "(string \<Rightarrow> node list) \<Rightarrow> shape list \<Rightarrow> nat \<Rightarrow> json \<Rightarrow> bool" where
  "addresses store root k entry \<longleftrightarrow>
     (\<exists>e pre i shapes. entry = JObj e
        \<and> map_of e ''slide_index'' = Some (JInt (int k))
        \<and> map_of e ''shape_index_chain'' = Some (JList (map (\<lambda>i. JInt (int i)) (pre @ [i])))
        \<and> descend root pre = Some shapes \<and> 1 \<le> i \<and> i \<le> length shapes
        \<and> names_text store (shapes ! (i - 1)) e)"

text \<open>
  What the body of the loop of \<^verbatim>\<open>walk_shapes\<close> does with one shape before it enters a
  group: the state called \<open>st3\<close> there.
\<close>

definition visit_shape ::
  "(string \<Rightarrow> node list) \<Rightarrow> shape \<Rightarrow> dict \<Rightarrow> string list \<Rightarrow> extraction \<Rightarrow> extraction" where
  "visit_shape store shape base_entry shape_segments st =
     (let st1 = (case text_frame shape of
                   Some frame \<Rightarrow>
                     st\<lparr>acc_entries :=
                          record_runs frame base_entry shape_segments ''text_frame'' []
                            (acc_entries st)\<rparr>
                 | None \<Rightarrow> st);
          st2 = (case table shape of
                   Some tbl \<Rightarrow>
                     st1\<lparr>acc_entries :=
                           record_table tbl base_entry shape_segments (acc_entries st1)\<rparr>
                 | None \<Rightarrow> st1)
      in record_chart_text store shape base_entry st2)"

text \<open>An entry addresses a text of the presentation, on one of its slides.\<close>

definition valid_entry :: "presentation \<Rightarrow> json \<Rightarrow> bool" where
  "valid_entry presentation entry \<longleftrightarrow>
     (\<exists>k. 1 \<le> k \<and> k \<le> length (slides presentation)
        \<and> addresses (parts presentation) (slide_shapes (slides presentation ! (k - 1))) k entry)"

text \<open>
  A sample document: a text box whose first run is empty, a group holding a chart, and
  on the second slide a table and a second chart shape backed by the same chart part.
\<close>

definition demo_presentation :: presentation where
  "demo_presentation =
     \<lparr>slides =
        [\<lparr>slide_id = 256, slide_layout = Some ''Title Slide'',
          slide_shapes =
            [Shape 2 ''Title'' (Some TEXT_BOX) (Some [['''', ''Hello'']]) None None [],
             Shape 3 ''Group'' (Some GROUP) None None None
               [Shape 4 ''Chart'' (Some CHART) None None (Some ''/ppt/charts/chart1.xml'') []]]\<rparr>,
         \<lparr>slide_id = 257, slide_layout = None,
          slide_shapes =
            [Shape 2 ''Table'' (Some TABLE) None
               (Some \<lparr>columns = 1, rows = [[[[''World'']]]]\<rparr>) None [],
             Shape 3 ''Chart'' (Some CHART) None None (Some ''/ppt/charts/chart1.xml'') []]\<rparr>],
      parts = (\<lambda>partname.
        if partname = ''/ppt/charts/chart1.xml''
        then [\<lparr>node_xpath = ''/c:chartSpace/a:t[1]'', node_text = Some ''Sales''\<rparr>,
              \<lparr>node_xpath = ''/c:chartSpace/a:t[2]'', node_text = None\<rparr>]
        else [])\<rparr>"

text \<open>
  What the specification says of resolving a chain, as a recursion on the chain: every
  element is range-checked against the current shape sequence; the last element
  yields the target shape; an element before the last must select a group, whose
  nested shapes become the current sequence, and fails otherwise.
\<close>

definition out_of_range :: "int \<Rightarrow> nat \<Rightarrow> string" where
  "out_of_range i depth =
     ''Shape index '' @ str_int i @ '' out of range at depth '' @ str_nat depth"

fun resolve_spec :: "shape list \<Rightarrow> nat \<Rightarrow> int list \<Rightarrow> error + shape" where
  "resolve_spec shapes depth [] = Inl (AssertionError ''shape_index_chain must not be empty'')"
| "resolve_spec shapes depth (i # rest) =
     (if \<not> (1 \<le> i \<and> i \<le> int (length shapes))
      then Inl (AssertionError (out_of_range i depth))
      else if rest = [] then Inr (shapes ! nat (i - 1))
      else if shape_type (shapes ! nat (i - 1)) \<noteq> Some GROUP
      then Inl (AssertionError ''Intermediate shape must be a group'')
      else resolve_spec (group_shapes (shapes ! nat (i - 1))) (depth + 1) rest)"

text \<open>The state in which \<^verbatim>\<open>apply_text_map\<close> starts: the loaded document, an empty cache.\<close>

definition initial_state :: "presentation \<Rightarrow> pstate" where
  "initial_state presentation = \<lparr>doc = presentation, chart_cache = [], part_queries = []\<rparr>"

text \<open>
  The part names of the chart shapes of a shape sequence, in the order in which
  \<^verbatim>\<open>walk_shapes\<close> visits them, one for each chart shape.
\<close>

fun chart_parts_of :: "shape list \<Rightarrow> string list" where
  "chart_parts_of [] = []"
| "chart_parts_of (Shape sid nm ty tf tb ch children # rest) =
     (case ch of Some partname \<Rightarrow> [partname] | None \<Rightarrow> [])
       @ (if ty = Some GROUP then chart_parts_of children else [])
       @ chart_parts_of rest"

text \<open>
  The projector's cache and its log of queries agree: the parts queried are the keys
  of the cache, and none was queried twice.
\<close>

definition cache_consistent :: "pstate \<Rightarrow> bool" where
  "cache_consistent st \<longleftrightarrow>
     distinct (part_queries st) \<and> set (part_queries st) = fst ` set (chart_cache st)"

text \<open>
  A translated map for the sample document whose first entry rewrites the text box and
  whose second entry names a slide that does not exist.
\<close>

definition demo_bad_map :: json where
  "demo_bad_map =
     JObj [(''entries'', JList
       [JObj [(''slide_index'', JInt 1), (''shape_index_chain'', JList [JInt 1]),
              (''container'', JStr ''text_frame''), (''paragraph_index'', JInt 1),
              (''run_index'', JInt 2), (''text'', JStr ''Bonjour'')],
        JObj [(''slide_index'', JInt 3), (''shape_index_chain'', JList [JInt 1]),
              (''container'', JStr ''text_frame''), (''paragraph_index'', JInt 1),
              (''run_index'', JInt 1), (''text'', JStr ''Monde'')]])]"

text \<open>
  The documents on which the round trip is an identity. A text is plain when the
  run setter stores it as it is given: it holds no character that the setter escapes.
  A table fits its grid when no row has more cells than the table has grid columns
  (the extractor enumerates the cells of each row, the projector checks \<open>table_col\<close>
  against the grid columns). A presentation is well formed when, for every shape that
  the extractor visits, the runs of its text frame and of its table cells are plain,
  its table fits its grid, and the texts of its chart part are XML-compatible, as the
  texts of a parsed part are.
\<close>

definition plain_text :: "string \<Rightarrow> bool" where
  "plain_text s \<longleftrightarrow> (\<forall>c\<in>set s. \<not> escaped_char c)"

definition plain_frame :: "text_frame \<Rightarrow> bool" where
  "plain_frame frame \<longleftrightarrow> (\<forall>para\<in>set frame. \<forall>run\<in>set para. plain_text run)"

definition wf_table :: "table \<Rightarrow> bool" where
  "wf_table tbl \<longleftrightarrow>
     (\<forall>row\<in>set (rows tbl). length row \<le> columns tbl \<and> (\<forall>cell\<in>set row. plain_frame cell))"

definition wf_part :: "node list \<Rightarrow> bool" where
  "wf_part nodes \<longleftrightarrow>
     (\<forall>nd\<in>set nodes. case node_text nd of None \<Rightarrow> True | Some s \<Rightarrow> xml_compatible s)"

fun wf_shapes :: "(string \<Rightarrow> node list) \<Rightarrow> shape list \<Rightarrow> bool" where
  "wf_shapes store [] = True"
| "wf_shapes store (Shape sid nm ty tf tb ch children # rest) =
     ((case tf of Some frame \<Rightarrow> plain_frame frame | None \<Rightarrow> True)
      \<and> (case tb of Some tbl \<Rightarrow> wf_table tbl | None \<Rightarrow> True)
      \<and> (case ch of Some partname \<Rightarrow> wf_part (store partname) | None \<Rightarrow> True)
      \<and> (ty = Some GROUP \<longrightarrow> wf_shapes store children)
      \<and> wf_shapes store rest)"

definition wf_presentation :: "presentation \<Rightarrow> bool" where
  "wf_presentation presentation \<longleftrightarrow>
     (\<forall>slide\<in>set (slides presentation).
        wf_shapes (parts presentation) (slide_shapes slide))"

text \<open>Every cached node list is the node list of its part in the current document.\<close>

definition cache_ok :: "pstate \<Rightarrow> bool" where
  "cache_ok st \<longleftrightarrow>
     (\<forall>key nodes. map_of (chart_cache st) key = Some nodes
        \<longrightarrow> nodes = xpath_nodes (doc st) key)"

text \<open>
  Two documents outside the well-formed ones: a table whose only row has one cell and
  whose grid has no column, and a text box whose run holds a carriage return.
\<close>

definition ragged_presentation :: presentation where
  "ragged_presentation =
     \<lparr>slides =
        [\<lparr>slide_id = 256, slide_layout = None,
          slide_shapes =
            [Shape 2 ''Table'' (Some TABLE) None
               (Some \<lparr>columns = 0, rows = [[[[''World'']]]]\<rparr>) None []]\<rparr>],
      parts = (\<lambda>partname. [])\<rparr>"

definition cr_presentation :: presentation where
  "cr_presentation =
     \<lparr>slides =
        [\<lparr>slide_id = 256, slide_layout = None,
          slide_shapes =
            [Shape 2 ''Title'' (Some TEXT_BOX) (Some [[[CHR ''a'', CHR 0x0D, CHR ''b'']]])
               None None []]\<rparr>],
      parts = (\<lambda>partname. [])\<rparr>"

section \<open>Properties of merge\_translations\<close>

lemma merge_loop_Inr:
  "merge_loop ps acc = Inr r \<Longrightarrow>
     r = acc @ map (\<lambda>p. JObj (AList.update ''text'' (snd p) (the_dict (fst p)))) ps
     \<and> (\<forall>p\<in>set ps. is_dict (fst p) \<and> is_str (snd p))"
proof (induction ps acc rule: merge_loop.induct)
  case (1 merged_entries)
  then show ?case by simp
next
  case (2 entry tv rest merged_entries)
  then show ?case
    by (cases entry; cases tv) auto
qed

lemma merge_loop_total:
  "\<forall>p\<in>set ps. is_dict (fst p) \<and> is_str (snd p) \<Longrightarrow> \<exists>r. merge_loop ps acc = Inr r"
proof (induction ps acc rule: merge_loop.induct)
  case (1 merged_entries)
  then show ?case by simp
next
  case (2 entry tv rest merged_entries)
  then show ?case
    by (cases entry; cases tv) auto
qed

lemma is_dict_the_dict: "is_dict e \<Longrightarrow> JObj (the_dict e) = e"
  by (cases e) auto

lemma is_str_ex: "is_str v \<Longrightarrow> \<exists>s. v = JStr s"
  by (cases v) auto

text \<open>
  Claim C2. For a base map whose \<open>entries\<close> field is a list of entry dicts and a list of
  translated strings of the same length, \<open>merge_translations\<close> returns a map in which
  entry \<open>i\<close> has \<open>text\<close> equal to the \<open>i\<close>-th value and every other field as in the base
  entry; \<open>source\<close> and \<open>slide_count\<close> (and every top-level field other than \<open>entries\<close> and
  \<open>entry_count\<close>) are as in the base map, and \<open>entry_count\<close> is the length of the merged
  entry list.
\<close>

theorem merge_translations_positional:
  assumes ents: "map_of d ''entries'' = Some (JList es)"
    and dicts: "\<forall>e\<in>set es. is_dict e"
    and strs: "\<forall>v\<in>set vs. is_str v"
    and len: "length es = length vs"
  shows "\<exists>d' es'.
           merge_translations (JObj d) vs = Inr (JObj d')
         \<and> map_of d' ''entries'' = Some (JList es')
         \<and> length es' = length es
         \<and> (\<forall>i<length es. \<exists>e e'.
               es ! i = JObj e \<and> es' ! i = JObj e'
             \<and> map_of e' ''text'' = Some (vs ! i)
             \<and> (\<forall>k. k \<noteq> ''text'' \<longrightarrow> map_of e' k = map_of e k))
         \<and> map_of d' ''entry_count'' = Some (JInt (int (length es')))
         \<and> map_of d' ''source'' = map_of d ''source''
         \<and> map_of d' ''slide_count'' = map_of d ''slide_count''
         \<and> (\<forall>k. k \<noteq> ''entries'' \<and> k \<noteq> ''entry_count'' \<longrightarrow> map_of d' k = map_of d k)"
proof -
  have ok: "\<forall>p\<in>set (zip es vs). is_dict (fst p) \<and> is_str (snd p)"
    using dicts strs by (auto dest: set_zip_leftD set_zip_rightD)
  obtain r where r: "merge_loop (zip es vs) [] = Inr r"
    using merge_loop_total [OF ok] by blast
  have r_eq: "r = map (\<lambda>p. JObj (AList.update ''text'' (snd p) (the_dict (fst p)))) (zip es vs)"
    using merge_loop_Inr [OF r] by simp
  define d' where "d' = AList.update ''entry_count'' (JInt (int (length r)))
                           (AList.update ''entries'' (JList r) d)"
  have res: "merge_translations (JObj d) vs = Inr (JObj d')"
    by (simp add: merge_translations_def ents len r d'_def)
  have lr: "length r = length es"
    by (simp add: r_eq len)
  have pos: "\<exists>e e'. es ! i = JObj e \<and> r ! i = JObj e'
             \<and> map_of e' ''text'' = Some (vs ! i)
             \<and> (\<forall>k. k \<noteq> ''text'' \<longrightarrow> map_of e' k = map_of e k)" if i: "i < length es" for i
  proof -
    have "is_dict (es ! i)" using dicts i by simp
    then have e: "es ! i = JObj (the_dict (es ! i))" by (simp add: is_dict_the_dict)
    have "r ! i = JObj (AList.update ''text'' (vs ! i) (the_dict (es ! i)))"
      using i len by (simp add: r_eq)
    with e show ?thesis
      by (auto simp: update_conv')
  qed
  show ?thesis
    using res lr pos by (intro exI [of _ d'] exI [of _ r]) (simp add: d'_def update_conv')
qed

theorem merge_translations_positional_witness:
  "\<exists>d' es'.
     merge_translations
       (JObj [(''source'', JStr ''deck.pptx''), (''slide_count'', JInt 1),
              (''entry_count'', JInt 2),
              (''entries'', JList [JObj [(''run_index'', JInt 1), (''text'', JStr ''Hello'')],
                                   JObj [(''run_index'', JInt 2), (''text'', JStr ''World'')]])])
       [JStr ''Bonjour'', JStr ''Monde''] = Inr (JObj d')
   \<and> map_of d' ''entries'' = Some (JList es')
   \<and> (\<exists>e'. es' ! 1 = JObj e' \<and> map_of e' ''text'' = Some (JStr ''Monde'')
            \<and> map_of e' ''run_index'' = Some (JInt 2))
   \<and> map_of d' ''entry_count'' = Some (JInt 2)
   \<and> map_of d' ''source'' = Some (JStr ''deck.pptx'')"
proof -
  let ?es = "[JObj [(''run_index'', JInt 1), (''text'', JStr ''Hello'')],
              JObj [(''run_index'', JInt 2), (''text'', JStr ''World'')]]"
  let ?d = "[(''source'', JStr ''deck.pptx''), (''slide_count'', JInt 1),
             (''entry_count'', JInt 2), (''entries'', JList ?es)]"
  let ?vs = "[JStr ''Bonjour'', JStr ''Monde'']"
  have h1: "map_of ?d ''entries'' = Some (JList ?es)" by simp
  have h2: "\<forall>e\<in>set ?es. is_dict e" by simp
  have h3: "\<forall>v\<in>set ?vs. is_str v" by simp
  have h4: "length ?es = length ?vs" by simp
  from merge_translations_positional [OF h1 h2 h3 h4]
  obtain d' es' where r1: "merge_translations (JObj ?d) ?vs = Inr (JObj d')"
      and r2: "map_of d' ''entries'' = Some (JList es')"
      and r3: "length es' = length ?es"
      and r4: "\<forall>i<length ?es. \<exists>e e'. ?es ! i = JObj e \<and> es' ! i = JObj e'
          \<and> map_of e' ''text'' = Some (?vs ! i)
          \<and> (\<forall>k. k \<noteq> ''text'' \<longrightarrow> map_of e' k = map_of e k)"
      and r5: "map_of d' ''entry_count'' = Some (JInt (int (length es')))"
      and r6: "map_of d' ''source'' = map_of ?d ''source''"
    by (elim exE conjE)
  have lt: "(1::nat) < length ?es" by simp
  have "\<exists>e e'. ?es ! 1 = JObj e \<and> es' ! 1 = JObj e'
          \<and> map_of e' ''text'' = Some (?vs ! 1)
          \<and> (\<forall>k. k \<noteq> ''text'' \<longrightarrow> map_of e' k = map_of e k)"
    by (rule r4 [rule_format, OF lt])
  then obtain e e' where e1: "?es ! 1 = JObj e" and e2: "es' ! 1 = JObj e'"
      and e3: "map_of e' ''text'' = Some (?vs ! 1)"
      and e4: "\<forall>k. k \<noteq> ''text'' \<longrightarrow> map_of e' k = map_of e k"
    by (elim exE conjE)
  from e1 have e: "e = [(''run_index'', JInt 2), (''text'', JStr ''World'')]" by simp
  from e4 have "''run_index'' \<noteq> ''text'' \<longrightarrow> map_of e' ''run_index'' = map_of e ''run_index''" ..
  then have e5: "map_of e' ''run_index'' = Some (JInt 2)" by (simp add: e)
  from e3 have e6: "map_of e' ''text'' = Some (JStr ''Monde'')" by simp
  from r5 r3 have r7: "map_of d' ''entry_count'' = Some (JInt 2)" by simp
  from r6 have r8: "map_of d' ''source'' = Some (JStr ''deck.pptx'')" by simp
  from e2 e5 e6 have "\<exists>e'. es' ! 1 = JObj e' \<and> map_of e' ''text'' = Some (JStr ''Monde'')
            \<and> map_of e' ''run_index'' = Some (JInt 2)" by blast
  with r1 r2 r7 r8 show ?thesis by blast
qed

text \<open>
  Claim C8, as stated, fails: with one entry and the one translated value \<open>1\<close> the
  lengths agree, and the merge still fails, on the assertion that every translated
  value is a string.
\<close>

theorem merge_translations_fails_on_equal_length:
  "length [JInt 1] = length [JObj [(''text'', JStr ''Hello'')]]
   \<and> merge_translations (JObj [(''entries'', JList [JObj [(''text'', JStr ''Hello'')]])])
        [JInt 1]
     = Inl (AssertionError ''translated value must be a string'')"
  by (simp add: merge_translations_def)

text \<open>
  Claim C8, amended. \<open>merge_translations\<close> fails if and only if the base map is not a
  dict, its \<open>entries\<close> field is not a list, the number of translated values differs from
  the number of entries, some entry is not a dict, or some translated value is not a
  string. When the lengths differ it fails with the count-mismatch message that names
  both lengths. A failure is an error value: there is no merged map, partial or other.
\<close>

theorem merge_translations_fails_iff:
  "((\<exists>err. merge_translations base_map vs = Inl err) \<longleftrightarrow>
      \<not> (\<exists>d es. base_map = JObj d \<and> map_of d ''entries'' = Some (JList es)
            \<and> length es = length vs
            \<and> (\<forall>e\<in>set es. is_dict e) \<and> (\<forall>v\<in>set vs. is_str v)))
   \<and> (\<forall>d es. base_map = JObj d \<and> map_of d ''entries'' = Some (JList es)
          \<and> length es \<noteq> length vs \<longrightarrow>
        merge_translations base_map vs =
          Inl (AssertionError (count_mismatch (length es) (length vs))))"
proof (intro conjI iffI allI impI)
  assume "\<exists>err. merge_translations base_map vs = Inl err"
  then obtain err where f: "merge_translations base_map vs = Inl err" ..
  show "\<not> (\<exists>d es. base_map = JObj d \<and> map_of d ''entries'' = Some (JList es)
            \<and> length es = length vs
            \<and> (\<forall>e\<in>set es. is_dict e) \<and> (\<forall>v\<in>set vs. is_str v))"
  proof
    assume "\<exists>d es. base_map = JObj d \<and> map_of d ''entries'' = Some (JList es)
            \<and> length es = length vs
            \<and> (\<forall>e\<in>set es. is_dict e) \<and> (\<forall>v\<in>set vs. is_str v)"
    then obtain d es where h: "base_map = JObj d" "map_of d ''entries'' = Some (JList es)"
      "length es = length vs" "\<forall>e\<in>set es. is_dict e" "\<forall>v\<in>set vs. is_str v" by blast
    have "\<forall>p\<in>set (zip es vs). is_dict (fst p) \<and> is_str (snd p)"
      using h(4,5) by (auto dest: set_zip_leftD set_zip_rightD)
    then obtain r where "merge_loop (zip es vs) [] = Inr r"
      using merge_loop_total by blast
    then show False using f h by (simp add: merge_translations_def)
  qed
next
  assume n: "\<not> (\<exists>d es. base_map = JObj d \<and> map_of d ''entries'' = Some (JList es)
            \<and> length es = length vs
            \<and> (\<forall>e\<in>set es. is_dict e) \<and> (\<forall>v\<in>set vs. is_str v))"
  show "\<exists>err. merge_translations base_map vs = Inl err"
  proof (rule ccontr)
    assume "\<not> (\<exists>err. merge_translations base_map vs = Inl err)"
    then obtain m where m: "merge_translations base_map vs = Inr m"
      by (cases "merge_translations base_map vs") auto
    then obtain d es r where h: "base_map = JObj d" "map_of d ''entries'' = Some (JList es)"
        "length es = length vs" "merge_loop (zip es vs) [] = Inr r"
      by (auto simp: merge_translations_def split: json.splits option.splits if_splits sum.splits)
    have z: "\<forall>p\<in>set (zip es vs). is_dict (fst p) \<and> is_str (snd p)"
      using merge_loop_Inr [OF h(4)] by blast
    have "\<forall>e\<in>set es. is_dict e"
    proof
      fix e assume "e \<in> set es"
      then obtain i where "i < length es" "es ! i = e" by (auto simp: in_set_conv_nth)
      then have "(e, vs ! i) \<in> set (zip es vs)" using h(3) by (auto simp: set_zip)
      then show "is_dict e" using z by force
    qed
    moreover have "\<forall>v\<in>set vs. is_str v"
    proof
      fix v assume "v \<in> set vs"
      then obtain i where "i < length vs" "vs ! i = v" by (auto simp: in_set_conv_nth)
      then have "(es ! i, v) \<in> set (zip es vs)" using h(3) by (auto simp: set_zip)
      then show "is_str v" using z by force
    qed
    ultimately show False using n h by blast
  qed
next
  fix d es
  assume "base_map = JObj d \<and> map_of d ''entries'' = Some (JList es) \<and> length es \<noteq> length vs"
  then show "merge_translations base_map vs =
          Inl (AssertionError (count_mismatch (length es) (length vs)))"
    by (simp add: merge_translations_def)
qed

theorem merge_translations_fails_iff_witness:
  "(\<exists>err. merge_translations (JObj [(''entries'', JList [JObj [(''text'', JStr ''Hello'')]])])
            [JStr ''Bonjour'', JStr ''Monde''] = Inl err)
   \<and> merge_translations (JObj [(''entries'', JList [JObj [(''text'', JStr ''Hello'')]])])
        [JStr ''Bonjour'', JStr ''Monde'']
     = Inl (AssertionError
         ''translated array must match entries length; 1 entries != 2 translated items'')"
proof -
  let ?m = "JObj [(''entries'', JList [JObj [(''text'', JStr ''Hello'')]])]"
  let ?vs = "[JStr ''Bonjour'', JStr ''Monde'']"
  note t = merge_translations_fails_iff [of ?m ?vs]
  have n: "\<not> (\<exists>d es. ?m = JObj d \<and> map_of d ''entries'' = Some (JList es)
              \<and> length es = length ?vs
              \<and> (\<forall>e\<in>set es. is_dict e) \<and> (\<forall>v\<in>set ?vs. is_str v))"
    by auto
  have a: "\<exists>err. merge_translations ?m ?vs = Inl err"
    using t n by blast
  have "?m = JObj [(''entries'', JList [JObj [(''text'', JStr ''Hello'')]])]
        \<and> map_of [(''entries'', JList [JObj [(''text'', JStr ''Hello'')]])] ''entries''
            = Some (JList [JObj [(''text'', JStr ''Hello'')]])
        \<and> length [JObj [(''text'', JStr ''Hello'')]] \<noteq> length ?vs"
    by simp
  with t have "merge_translations ?m ?vs =
      Inl (AssertionError (count_mismatch (length [JObj [(''text'', JStr ''Hello'')]]) (length ?vs)))"
    by blast
  then have b: "merge_translations ?m ?vs = Inl (AssertionError
         ''translated array must match entries length; 1 entries != 2 translated items'')"
    by (simp add: count_mismatch_def str_nat.simps)
  from a b show ?thesis by blast
qed

section \<open>Properties of load\_texts\<close>

lemma texts_loop_ok:
  "\<forall>e\<in>set es. is_dict e \<and> map_of (the_dict e) ''text'' \<noteq> None \<Longrightarrow>
   texts_loop es idx acc = Inr (acc @ map (\<lambda>e. the (map_of (the_dict e) ''text'')) es)"
proof (induction es arbitrary: idx acc)
  case Nil
  then show ?case by simp
next
  case (Cons entry rest)
  then obtain e t where e: "entry = JObj e" "map_of e ''text'' = Some t"
    by (cases entry) auto
  have "texts_loop (entry # rest) idx acc = texts_loop rest (idx + 1) (acc @ [t])"
    by (simp add: e getitem_def)
  also have "\<dots> = Inr ((acc @ [t]) @ map (\<lambda>e. the (map_of (the_dict e) ''text'')) rest)"
    using Cons.prems by (intro Cons.IH) simp
  finally show ?case by (simp add: e)
qed

lemma texts_loop_fail:
  "\<forall>e\<in>set es. is_dict e \<Longrightarrow> \<exists>e\<in>set es. map_of (the_dict e) ''text'' = None \<Longrightarrow>
   \<exists>err. texts_loop es idx acc = Inl err"
proof (induction es arbitrary: idx acc)
  case Nil
  then show ?case by simp
next
  case (Cons entry rest)
  then obtain e where e: "entry = JObj e"
    by (cases entry) auto
  show ?case
  proof (cases "map_of e ''text''")
    case None
    then show ?thesis by (simp add: e)
  next
    case (Some t)
    then have "texts_loop (entry # rest) idx acc = texts_loop rest (idx + 1) (acc @ [t])"
      by (simp add: e getitem_def)
    moreover have "\<exists>e\<in>set rest. map_of (the_dict e) ''text'' = None"
      using Cons.prems(2) Some by (auto simp: e)
    ultimately show ?thesis
      using Cons.IH [of "idx + 1" "acc @ [t]"] Cons.prems(1) by simp
  qed
qed

text \<open>
  Claim C9. For a text map whose \<open>entries\<close> field is a list of entry dicts: when every
  entry has a \<open>text\<close> field, \<open>load_texts\<close> returns the text values in entry order; it
  fails exactly when some entry has no \<open>text\<close> field; and whatever it returns has as
  many elements as there are entries.
\<close>

theorem load_texts_flatten:
  assumes ents: "map_of d ''entries'' = Some (JList es)"
    and dicts: "\<forall>e\<in>set es. is_dict e"
  shows "((\<forall>e\<in>set es. map_of (the_dict e) ''text'' \<noteq> None) \<longrightarrow>
            load_texts (JObj d) = Inr (map (\<lambda>e. the (map_of (the_dict e) ''text'')) es))
       \<and> ((\<exists>err. load_texts (JObj d) = Inl err) \<longleftrightarrow>
            (\<exists>e\<in>set es. map_of (the_dict e) ''text'' = None))
       \<and> (\<forall>ts. load_texts (JObj d) = Inr ts \<longrightarrow> length ts = length es)"
proof -
  have lt: "load_texts (JObj d) = texts_loop es 1 []"
    by (simp add: load_texts_def getitem_def ents)
  have a: "load_texts (JObj d) = Inr (map (\<lambda>e. the (map_of (the_dict e) ''text'')) es)"
    if "\<forall>e\<in>set es. map_of (the_dict e) ''text'' \<noteq> None"
    using texts_loop_ok [of es 1 "[]"] dicts that by (simp add: lt)
  have b: "\<exists>err. load_texts (JObj d) = Inl err"
    if "\<exists>e\<in>set es. map_of (the_dict e) ''text'' = None"
    using texts_loop_fail [OF dicts that] by (simp add: lt)
  have c: "\<exists>e\<in>set es. map_of (the_dict e) ''text'' = None"
    if "\<exists>err. load_texts (JObj d) = Inl err"
  proof (rule ccontr)
    assume "\<not> (\<exists>e\<in>set es. map_of (the_dict e) ''text'' = None)"
    then have "\<forall>e\<in>set es. map_of (the_dict e) ''text'' \<noteq> None" by simp
    from a [OF this] that show False by auto
  qed
  have d: "length ts = length es" if "load_texts (JObj d) = Inr ts" for ts
  proof (cases "\<forall>e\<in>set es. map_of (the_dict e) ''text'' \<noteq> None")
    case True
    from a [OF this] that show ?thesis by auto
  next
    case False
    then have "\<exists>e\<in>set es. map_of (the_dict e) ''text'' = None" by simp
    from b [OF this] that show ?thesis by auto
  qed
  show ?thesis using a b c d by blast
qed

theorem load_texts_flatten_witness:
  "load_texts (JObj [(''entry_count'', JInt 2),
                     (''entries'', JList [JObj [(''text'', JStr ''Hello'')],
                                          JObj [(''text'', JStr ''World''), (''run_index'', JInt 1)]])])
     = Inr [JStr ''Hello'', JStr ''World'']"
proof -
  let ?es = "[JObj [(''text'', JStr ''Hello'')],
              JObj [(''text'', JStr ''World''), (''run_index'', JInt 1)]]"
  let ?d = "[(''entry_count'', JInt 2), (''entries'', JList ?es)]"
  have h1: "map_of ?d ''entries'' = Some (JList ?es)" by simp
  have h2: "\<forall>e\<in>set ?es. is_dict e" by simp
  have h3: "\<forall>e\<in>set ?es. map_of (the_dict e) ''text'' \<noteq> None" by simp
  from load_texts_flatten [OF h1 h2] h3
  have "load_texts (JObj ?d) = Inr (map (\<lambda>e. the (map_of (the_dict e) ''text'')) ?es)"
    by blast
  then show ?thesis by simp
qed

section \<open>Properties of the extractor\<close>

lemma map_of_dict_update:
  "map_of (dict_update d other) k =
     (case map_of (rev other) k of Some v \<Rightarrow> Some v | None \<Rightarrow> map_of d k)"
proof (induction other arbitrary: d)
  case Nil
  then show ?case by (simp add: dict_update_def)
next
  case (Cons kv rest)
  have "dict_update d (kv # rest) = dict_update (AList.update (fst kv) (snd kv) d) rest"
    by (simp add: dict_update_def)
  then show ?case
    by (cases kv) (auto simp: Cons.IH update_conv' map_add_def split: option.splits)
qed

lemma foldl_enumerate_append:
  assumes step: "\<And>acc i x. f acc (i, x) = acc @ g i x"
  shows "foldl f acc (enumerate n xs) =
           acc @ concat (map (\<lambda>j. g (j + n) (xs ! j)) [0..<length xs])"
proof (induction xs arbitrary: n acc)
  case Nil
  then show ?case by simp
next
  case (Cons x xs)
  have upt: "[0..<length (x # xs)] = 0 # map Suc [0..<length xs]"
    by (simp add: upt_conv_Cons map_Suc_upt del: upt_Suc)
  have "foldl f acc (enumerate n (x # xs)) = foldl f (acc @ g n x) (enumerate (Suc n) xs)"
    by (simp add: step)
  also have "\<dots> = (acc @ g n x) @ concat (map (\<lambda>j. g (j + Suc n) (xs ! j)) [0..<length xs])"
    by (rule Cons.IH)
  also have "\<dots> = acc @ concat (map (\<lambda>j. g (j + n) ((x # xs) ! j)) [0..<length (x # xs)])"
    unfolding upt by (simp add: comp_def)
  finally show ?case .
qed

lemma record_runs_eq:
  "record_runs frame base_entry segs container extra acc =
     acc @ [run_entry base_entry extra container (p + 1) (r + 1)
              (run_path segs container (p + 1) (r + 1)) (frame ! p ! r).
            p \<leftarrow> [0..<length frame], r \<leftarrow> [0..<length (frame ! p)], frame ! p ! r \<noteq> []]"
proof -
  have inner: "foldl (\<lambda>entries. \<lambda>(run_idx, run).
              let text = run in
              if text = [] then entries
              else
                let run_segments = psegs @ [''run['' @ str_nat run_idx @ '']'']
                in entries @ [run_entry base_entry extra container para_idx run_idx
                                run_segments text])
            entries (enumerate 1 para)
        = entries @ concat (map (\<lambda>r. if para ! r \<noteq> [] then
              [run_entry base_entry extra container para_idx (r + 1)
                 (psegs @ [''run['' @ str_nat (r + 1) @ '']'']) (para ! r)] else [])
            [0..<length para])" for psegs para_idx para entries
    by (subst foldl_enumerate_append
          [where g = "\<lambda>i run. if run \<noteq> [] then
              [run_entry base_entry extra container para_idx i
                 (psegs @ [''run['' @ str_nat i @ '']'']) run] else []"]) auto
  show ?thesis
    unfolding record_runs_def Let_def inner [unfolded Let_def] run_path_def
    by (subst foldl_enumerate_append
          [where g = "\<lambda>i para. concat (map (\<lambda>r. if para ! r \<noteq> [] then
              [run_entry base_entry extra container i (r + 1)
                 (((segs @ [container]) @ [''paragraph['' @ str_nat i @ '']''])
                    @ [''run['' @ str_nat (r + 1) @ '']'']) (para ! r)] else [])
            [0..<length para])"]) auto
qed

lemma run_entry_fields:
  "map_of (the_dict (run_entry base extra c p r segs t)) ''text'' = Some (JStr t)"
  "map_of (the_dict (run_entry base extra c p r segs t)) ''run_index'' = Some (JInt (int r))"
  "map_of (the_dict (run_entry base extra c p r segs t)) ''paragraph_index'' = Some (JInt (int p))"
  "map_of (the_dict (run_entry base extra c p r segs t)) ''container'' = Some (JStr c)"
  by (simp_all add: run_entry_def map_of_dict_update)

lemma run_entry_other:
  "k \<noteq> ''container'' \<Longrightarrow> k \<noteq> ''paragraph_index'' \<Longrightarrow> k \<noteq> ''run_index'' \<Longrightarrow> k \<noteq> ''path''
   \<Longrightarrow> k \<noteq> ''text''
   \<Longrightarrow> map_of (the_dict (run_entry base extra c p r segs t)) k =
       (case map_of (rev extra) k of Some v \<Rightarrow> Some v | None \<Rightarrow> map_of base k)"
  by (simp add: run_entry_def map_of_dict_update)

lemma chart_entry_fields:
  "map_of (the_dict (chart_entry base pn i nd t)) ''text'' = Some (JStr t)"
  "map_of (the_dict (chart_entry base pn i nd t)) ''chart_text_index'' = Some (JInt (int i))"
  "map_of (the_dict (chart_entry base pn i nd t)) ''chart_partname'' = Some (JStr pn)"
  "map_of (the_dict (chart_entry base pn i nd t)) ''container'' = Some (JStr ''chart_part'')"
  by (simp_all add: chart_entry_def map_of_dict_update)

lemma chart_entry_other:
  "k \<noteq> ''container'' \<Longrightarrow> k \<noteq> ''chart_partname'' \<Longrightarrow> k \<noteq> ''chart_text_index''
   \<Longrightarrow> k \<noteq> ''chart_xpath'' \<Longrightarrow> k \<noteq> ''text''
   \<Longrightarrow> map_of (the_dict (chart_entry base pn i nd t)) k = map_of base k"
  by (simp add: chart_entry_def map_of_dict_update)

text \<open>
  Claim C5. The entries that \<^verbatim>\<open>record_runs\<close> appends for a text frame are, in order, one
  for each run whose text is not empty, and none for an empty run. The entry of the
  run at 0-based position \<open>r\<close> of the paragraph at 0-based position \<open>p\<close> has
  \<open>run_index = r + 1\<close> and \<open>paragraph_index = p + 1\<close>: positions count every run of
  the paragraph, empty ones included.
\<close>

theorem record_runs_positions:
  "\<exists>new. record_runs frame base_entry segs container extra acc = acc @ new
     \<and> map (\<lambda>e. (map_of (the_dict e) ''paragraph_index'',
                  map_of (the_dict e) ''run_index'',
                  map_of (the_dict e) ''text'')) new
       = [(Some (JInt (int (p + 1))), Some (JInt (int (r + 1))), Some (JStr (frame ! p ! r))).
          p \<leftarrow> [0..<length frame], r \<leftarrow> [0..<length (frame ! p)], frame ! p ! r \<noteq> []]"
  unfolding record_runs_eq
  by (rule exI, rule conjI, rule refl)
     (simp add: map_concat comp_def if_distrib run_entry_fields cong: if_cong)

text \<open>
  The example of the claim: a paragraph of one empty run followed by one non-empty
  run gives exactly one entry, with \<open>run_index\<close> 2.
\<close>

theorem record_runs_positions_witness:
  "\<exists>e. record_runs [['''', ''Hello'']] [] [''slide[1]'', ''shape[1]''] ''text_frame'' [] [] = [e]
     \<and> map_of (the_dict e) ''run_index'' = Some (JInt 2)
     \<and> map_of (the_dict e) ''text'' = Some (JStr ''Hello'')"
proof -
  from record_runs_positions [of "[['''', ''Hello'']]" "[]" "[''slide[1]'', ''shape[1]'']"
         "''text_frame''" "[]" "[]"]
  obtain new where n1: "record_runs [['''', ''Hello'']] [] [''slide[1]'', ''shape[1]'']
                          ''text_frame'' [] [] = [] @ new"
    and n2: "map (\<lambda>e. (map_of (the_dict e) ''paragraph_index'',
                  map_of (the_dict e) ''run_index'',
                  map_of (the_dict e) ''text'')) new
       = [(Some (JInt (int (p + 1))), Some (JInt (int (r + 1))),
           Some (JStr ([['''', ''Hello'']] ! p ! r))).
          p \<leftarrow> [0..<length [['''', ''Hello'']]], r \<leftarrow> [0..<length ([['''', ''Hello'']] ! p)],
          [['''', ''Hello'']] ! p ! r \<noteq> []]"
    by (elim exE conjE)
  have "[(Some (JInt (int (p + 1))), Some (JInt (int (r + 1))),
           Some (JStr ([['''', ''Hello'']] ! p ! r))).
          p \<leftarrow> [0..<length [['''', ''Hello'']]], r \<leftarrow> [0..<length ([['''', ''Hello'']] ! p)],
          [['''', ''Hello'']] ! p ! r \<noteq> []]
        = [(Some (JInt 1), Some (JInt 2), Some (JStr ''Hello''))]"
    by (simp add: upt_conv_Cons)
  with n2 have m: "map (\<lambda>e. (map_of (the_dict e) ''paragraph_index'',
                  map_of (the_dict e) ''run_index'',
                  map_of (the_dict e) ''text'')) new
        = [(Some (JInt 1), Some (JInt 2), Some (JStr ''Hello''))]" by simp
  then obtain e where e: "new = [e]"
    by (cases new) auto
  with m n1 show ?thesis by simp
qed

lemma foldl_enumerate_one:
  assumes step: "\<And>acc i x. f acc (i, x) = acc @ g i x"
  shows "foldl f acc (enumerate 1 xs) =
           acc @ concat (map (\<lambda>j. g (Suc j) (xs ! j)) [0..<length xs])"
  by (simp add: foldl_enumerate_append [where g = g, OF step])

lemma record_runs_append:
  "record_runs frame base_entry segs container extra acc =
     acc @ run_entries frame base_entry segs container extra"
proof -
  have inner: "foldl (\<lambda>entries. \<lambda>(run_idx, run).
              let text = run in
              if text = [] then entries
              else
                let run_segments = psegs @ [''run['' @ str_nat run_idx @ '']'']
                in entries @ [run_entry base_entry extra container para_idx run_idx
                                run_segments text])
            entries (enumerate 1 para)
        = entries @ concat (map (\<lambda>r. if para ! r \<noteq> [] then
              [run_entry base_entry extra container para_idx (Suc r)
                 (psegs @ [''run['' @ str_nat (Suc r) @ '']'']) (para ! r)] else [])
            [0..<length para])" for psegs para_idx para entries
    by (subst foldl_enumerate_one
          [where g = "\<lambda>i run. if run \<noteq> [] then
              [run_entry base_entry extra container para_idx i
                 (psegs @ [''run['' @ str_nat i @ '']'']) run] else []"]) auto
  show ?thesis
    unfolding record_runs_def Let_def inner [unfolded Let_def] run_entries_def run_path_def
    by (subst foldl_enumerate_one
          [where g = "\<lambda>i para. concat (map (\<lambda>r. if para ! r \<noteq> [] then
              [run_entry base_entry extra container i (Suc r)
                 (((segs @ [container]) @ [''paragraph['' @ str_nat i @ '']''])
                    @ [''run['' @ str_nat (Suc r) @ '']'']) (para ! r)] else [])
            [0..<length para])"]) auto
qed

lemma in_run_entries:
  "e \<in> set (run_entries frame base_entry segs container extra) \<longleftrightarrow>
     (\<exists>p r. p < length frame \<and> r < length (frame ! p) \<and> frame ! p ! r \<noteq> []
        \<and> e = run_entry base_entry extra container (Suc p) (Suc r)
                (run_path segs container (Suc p) (Suc r)) (frame ! p ! r))"
  by (force simp: run_entries_def)

lemma in_record_table:
  "e \<in> set (record_table tbl base_entry segs acc) \<longleftrightarrow>
     e \<in> set acc \<or>
     (\<exists>i j. i < length (rows tbl) \<and> j < length (rows tbl ! i)
        \<and> e \<in> set (run_entries (rows tbl ! i ! j) base_entry
              ((segs @ [''table'']) @ [''cell['' @ str_nat (Suc i) @ '','' @ str_nat (Suc j) @ '']''])
              ''table_cell''
              [(''table_row'', JInt (int (Suc i))), (''table_col'', JInt (int (Suc j)))]))"
proof -
  have inner: "foldl (\<lambda>entries. \<lambda>(col_idx, cell).
              let cell_segments =
                    tsegs @ [''cell['' @ str_nat row_idx @ '','' @ str_nat col_idx @ '']''];
                  extra = [(''table_row'', JInt (int row_idx)),
                           (''table_col'', JInt (int col_idx))]
              in record_runs cell base_entry cell_segments ''table_cell'' extra entries)
            entries (enumerate 1 row)
       = entries @ concat (map (\<lambda>j. run_entries (row ! j) base_entry
              (tsegs @ [''cell['' @ str_nat row_idx @ '','' @ str_nat (Suc j) @ '']''])
              ''table_cell''
              [(''table_row'', JInt (int row_idx)), (''table_col'', JInt (int (Suc j)))])
            [0..<length row])" for tsegs row_idx row entries
    by (subst foldl_enumerate_one
          [where g = "\<lambda>c cell. run_entries cell base_entry
              (tsegs @ [''cell['' @ str_nat row_idx @ '','' @ str_nat c @ '']''])
              ''table_cell''
              [(''table_row'', JInt (int row_idx)), (''table_col'', JInt (int c))]"])
       (auto simp: record_runs_append)
  have eq: "record_table tbl base_entry segs acc =
      acc @ concat (map (\<lambda>i. concat (map (\<lambda>j. run_entries (rows tbl ! i ! j) base_entry
              ((segs @ [''table'']) @ [''cell['' @ str_nat (Suc i) @ '','' @ str_nat (Suc j) @ '']''])
              ''table_cell''
              [(''table_row'', JInt (int (Suc i))), (''table_col'', JInt (int (Suc j)))])
            [0..<length (rows tbl ! i)])) [0..<length (rows tbl)])"
    unfolding record_table_def Let_def inner [unfolded Let_def]
    by (subst foldl_enumerate_one
          [where g = "\<lambda>ri row. concat (map (\<lambda>j. run_entries (row ! j) base_entry
              ((segs @ [''table'']) @ [''cell['' @ str_nat ri @ '','' @ str_nat (Suc j) @ '']''])
              ''table_cell''
              [(''table_row'', JInt (int ri)), (''table_col'', JInt (int (Suc j)))])
            [0..<length row])"]) auto
  show ?thesis
    unfolding eq by auto
qed

lemma record_chart_text_entries:
  "chart shape = Some pn \<Longrightarrow>
   e \<in> set (acc_entries (record_chart_text store shape base_entry st)) \<longleftrightarrow>
     e \<in> set (acc_entries st) \<or>
     (\<exists>n s. n < length (store pn) \<and> node_text (store pn ! n) = Some s \<and> s \<noteq> []
        \<and> e = chart_entry base_entry pn (Suc n) (store pn ! n) s)"
proof -
  assume c: "chart shape = Some pn"
  have fold: "foldl (\<lambda>entries. \<lambda>(chart_idx, node).
                   case node_text node of
                     None \<Rightarrow> entries
                   | Some text \<Rightarrow>
                       if text = [] then entries
                       else entries @ [chart_entry base_entry pn chart_idx node text])
                 entries (enumerate 1 nodes)
      = entries @ concat (map (\<lambda>n.
          case node_text (nodes ! n) of None \<Rightarrow> []
          | Some s \<Rightarrow> if s = [] then [] else [chart_entry base_entry pn (Suc n) (nodes ! n) s])
        [0..<length nodes])" for entries nodes
    by (subst foldl_enumerate_one
          [where g = "\<lambda>i nd. case node_text nd of None \<Rightarrow> []
          | Some s \<Rightarrow> if s = [] then [] else [chart_entry base_entry pn i nd s]"])
       (auto split: option.splits)
  have eq: "acc_entries (record_chart_text store shape base_entry st) =
      acc_entries st @ concat (map (\<lambda>n.
          case node_text (store pn ! n) of None \<Rightarrow> []
          | Some s \<Rightarrow> if s = [] then [] else [chart_entry base_entry pn (Suc n) (store pn ! n) s])
        [0..<length (store pn)])"
    unfolding record_chart_text_def Let_def c
    by (simp add: fold del: One_nat_def)
  show ?thesis
    unfolding eq by (force split: option.splits if_splits)
qed

lemma record_chart_text_none:
  "chart shape = None \<Longrightarrow> record_chart_text store shape base_entry st = st"
  by (simp add: record_chart_text_def)

lemma descend_snoc:
  "descend root (pre @ [i]) =
     (case descend root pre of
        None \<Rightarrow> None
      | Some shapes \<Rightarrow>
          if 1 \<le> i \<and> i \<le> length shapes \<and> shape_type (shapes ! (i - 1)) = Some GROUP
          then Some (group_shapes (shapes ! (i - 1))) else None)"
  by (induction root pre rule: descend.induct) auto

lemma run_entry_JObj: "\<exists>d. run_entry base extra c p r segs t = JObj d"
  by (simp add: run_entry_def)

lemma chart_entry_JObj: "\<exists>d. chart_entry base pn i nd t = JObj d"
  by (simp add: chart_entry_def)

lemma base_entry_fields:
  "map_of (base_entry_of meta shape chain segs) ''slide_index''
     = Some (JInt (int (meta_slide_index meta)))"
  "map_of (base_entry_of meta shape chain segs) ''shape_index_chain''
     = Some (JList (map (\<lambda>i. JInt (int i)) chain))"
  "map_of (base_entry_of meta shape chain segs) ''table_row'' = None"
  by (simp_all add: base_entry_of_def)

lemma stage_text_frame:
  assumes P: "\<And>e. addresses store root k e \<Longrightarrow> P e"
    and d: "descend root chain = Some shapes"
    and i: "1 \<le> idx" "idx \<le> length shapes"
    and sh: "shapes ! (idx - 1) = shape"
    and k: "meta_slide_index meta = k"
    and tf: "text_frame shape = Some frame"
    and e: "e \<in> set (run_entries frame (base_entry_of meta shape (chain @ [idx]) segs) segs'
                       ''text_frame'' [])"
  shows "P e"
proof -
  from e obtain p r where pr: "p < length frame" "r < length (frame ! p)" "frame ! p ! r \<noteq> []"
    and e_eq: "e = run_entry (base_entry_of meta shape (chain @ [idx]) segs) [] ''text_frame''
                    (Suc p) (Suc r) (run_path segs' ''text_frame'' (Suc p) (Suc r)) (frame ! p ! r)"
    unfolding in_run_entries by blast
  obtain fields where f: "e = JObj fields"
    using run_entry_JObj e_eq by blast
  have fd: "fields = the_dict e" by (simp add: f)
  have nr: "names_run frame fields (frame ! p ! r)"
    unfolding names_run_def fd e_eq using pr by (auto simp: run_entry_fields)
  have nt: "names_text store shape fields"
    unfolding names_text_def using nr tf pr(3)
    by (intro exI [of _ "frame ! p ! r"]) (simp add: fd e_eq run_entry_fields)
  have a1: "map_of fields ''slide_index'' = Some (JInt (int k))"
    by (simp add: fd e_eq run_entry_other base_entry_fields k)
  have a2: "map_of fields ''shape_index_chain''
              = Some (JList (map (\<lambda>i. JInt (int i)) (chain @ [idx])))"
    by (simp add: fd e_eq run_entry_other base_entry_fields)
  have "addresses store root k e"
    unfolding addresses_def
    using f a1 a2 d i nt [folded sh] by blast
  then show ?thesis by (rule P)
qed

lemma stage_table:
  assumes P: "\<And>e. addresses store root k e \<Longrightarrow> P e"
    and d: "descend root chain = Some shapes"
    and i: "1 \<le> idx" "idx \<le> length shapes"
    and sh: "shapes ! (idx - 1) = shape"
    and k: "meta_slide_index meta = k"
    and tb: "table shape = Some tbl"
    and rc: "row < length (rows tbl)" "col < length (rows tbl ! row)"
    and e: "e \<in> set (run_entries (rows tbl ! row ! col)
                       (base_entry_of meta shape (chain @ [idx]) segs) segs' ''table_cell''
                       [(''table_row'', JInt (int (Suc row))), (''table_col'', JInt (int (Suc col)))])"
  shows "P e"
proof -
  let ?cell = "rows tbl ! row ! col"
  let ?extra = "[(''table_row'', JInt (int (Suc row))), (''table_col'', JInt (int (Suc col)))]"
  from e obtain p r where pr: "p < length ?cell" "r < length (?cell ! p)" "?cell ! p ! r \<noteq> []"
    and e_eq: "e = run_entry (base_entry_of meta shape (chain @ [idx]) segs) ?extra ''table_cell''
                    (Suc p) (Suc r) (run_path segs' ''table_cell'' (Suc p) (Suc r)) (?cell ! p ! r)"
    unfolding in_run_entries by blast
  obtain fields where f: "e = JObj fields"
    using run_entry_JObj e_eq by blast
  have fd: "fields = the_dict e" by (simp add: f)
  have nr: "names_run ?cell fields (?cell ! p ! r)"
    unfolding names_run_def fd e_eq using pr by (auto simp: run_entry_fields)
  have rowcol: "map_of fields ''table_row'' = Some (JInt (int (Suc row)))"
      "map_of fields ''table_col'' = Some (JInt (int (Suc col)))"
    by (simp_all add: fd e_eq run_entry_other)
  have nt: "names_text store shape fields"
    unfolding names_text_def using nr tb pr(3) rc rowcol
    by (intro exI [of _ "?cell ! p ! r"]) (auto simp: fd e_eq run_entry_fields)
  have a1: "map_of fields ''slide_index'' = Some (JInt (int k))"
    by (simp add: fd e_eq run_entry_other base_entry_fields k)
  have a2: "map_of fields ''shape_index_chain''
              = Some (JList (map (\<lambda>i. JInt (int i)) (chain @ [idx])))"
    by (simp add: fd e_eq run_entry_other base_entry_fields)
  have "addresses store root k e"
    unfolding addresses_def
    using f a1 a2 d i nt [folded sh] by blast
  then show ?thesis by (rule P)
qed

lemma stage_chart:
  assumes P: "\<And>e. addresses store root k e \<Longrightarrow> P e"
    and d: "descend root chain = Some shapes"
    and i: "1 \<le> idx" "idx \<le> length shapes"
    and sh: "shapes ! (idx - 1) = shape"
    and k: "meta_slide_index meta = k"
    and ch: "chart shape = Some pn"
    and n: "n < length (store pn)" "node_text (store pn ! n) = Some s" "s \<noteq> []"
    and e: "e = chart_entry (base_entry_of meta shape (chain @ [idx]) segs) pn (Suc n)
                  (store pn ! n) s"
  shows "P e"
proof -
  obtain fields where f: "e = JObj fields"
    using chart_entry_JObj e by blast
  have fd: "fields = the_dict e" by (simp add: f)
  have nt: "names_text store shape fields"
    unfolding names_text_def using ch n
    by (intro exI [of _ s]) (auto simp: fd e chart_entry_fields)
  have a1: "map_of fields ''slide_index'' = Some (JInt (int k))"
    by (simp add: fd e chart_entry_other base_entry_fields k)
  have a2: "map_of fields ''shape_index_chain''
              = Some (JList (map (\<lambda>i. JInt (int i)) (chain @ [idx])))"
    by (simp add: fd e chart_entry_other base_entry_fields)
  have "addresses store root k e"
    unfolding addresses_def
    using f a1 a2 d i nt [folded sh] by blast
  then show ?thesis by (rule P)
qed

lemma walk_shapes_Cons:
  "walk_shapes store (shape # rest) idx segs chain meta st =
     (let shape_segments = segs @ [''shape['' @ str_nat idx @ '']''];
          st3 = visit_shape store shape
                  (base_entry_of meta shape (chain @ [idx]) shape_segments) shape_segments st;
          st4 = (if shape_type shape = Some GROUP
                 then walk_shapes store (group_shapes shape) 1 shape_segments (chain @ [idx])
                        meta st3
                 else st3)
      in walk_shapes store rest (idx + 1) segs chain meta st4)"
  by (cases shape) (simp only: walk_shapes.simps visit_shape_def Let_def shape.sel)

lemma visit_shape_invariant:
  assumes P: "\<And>e. addresses store root k e \<Longrightarrow> P e"
    and d: "descend root chain = Some shapes"
    and i: "1 \<le> idx" "idx \<le> length shapes"
    and sh: "shapes ! (idx - 1) = shape"
    and k: "meta_slide_index meta = k"
    and acc: "\<forall>e\<in>set (acc_entries st). P e"
  shows "\<forall>e\<in>set (acc_entries
            (visit_shape store shape (base_entry_of meta shape (chain @ [idx]) segs) segs' st)). P e"
proof -
  let ?base = "base_entry_of meta shape (chain @ [idx]) segs"
  let ?st1 = "case text_frame shape of
                   Some frame \<Rightarrow>
                     st\<lparr>acc_entries :=
                          record_runs frame ?base segs' ''text_frame'' [] (acc_entries st)\<rparr>
                 | None \<Rightarrow> st"
  let ?st2 = "case table shape of
                   Some tbl \<Rightarrow>
                     ?st1\<lparr>acc_entries := record_table tbl ?base segs' (acc_entries ?st1)\<rparr>
                 | None \<Rightarrow> ?st1"
  have s1: "\<forall>e\<in>set (acc_entries ?st1). P e"
  proof (cases "text_frame shape")
    case None
    then show ?thesis using acc by simp
  next
    case (Some frame)
    show ?thesis
      using acc stage_text_frame [where store = store and P = P, OF P d i sh k Some]
      by (auto simp: Some record_runs_append)
  qed
  have s2: "\<forall>e\<in>set (acc_entries ?st2). P e"
  proof (cases "table shape")
    case None
    then show ?thesis using s1 by simp
  next
    case (Some tbl)
    show ?thesis
      using s1 stage_table [where store = store and P = P, OF P d i sh k Some]
      by (auto simp: Some in_record_table)
  qed
  have s3: "\<forall>e\<in>set (acc_entries (record_chart_text store shape ?base ?st2)). P e"
  proof (cases "chart shape")
    case None
    then show ?thesis using s2 by (simp add: record_chart_text_none)
  next
    case (Some pn)
    show ?thesis
      using s2 stage_chart [where store = store and P = P, OF P d i sh k Some]
      by (auto simp: record_chart_text_entries [OF Some])
  qed
  then show ?thesis
    by (simp add: visit_shape_def Let_def)
qed

lemma walk_shapes_invariant:
  "(\<And>e. addresses store root k e \<Longrightarrow> P e)
     \<Longrightarrow> descend root chain = Some (before @ ss) \<Longrightarrow> idx = Suc (length before)
     \<Longrightarrow> meta_slide_index meta = k \<Longrightarrow> \<forall>e\<in>set (acc_entries st). P e
     \<Longrightarrow> \<forall>e\<in>set (acc_entries (walk_shapes store ss idx segs chain meta st)). P e"
proof (induction store ss idx segs chain meta st arbitrary: before rule: walk_shapes.induct)
  case (1 store shape_idx path_segments index_chain slide_meta st)
  then show ?case by simp
next
  case (2 store sid nm ty tf tb ch children rest shape_idx path_segments index_chain
          slide_meta st)
  let ?shape = "Shape sid nm ty tf tb ch children"
  let ?segs = "path_segments @ [''shape['' @ str_nat shape_idx @ '']'']"
  let ?chain = "index_chain @ [shape_idx]"
  let ?base = "base_entry_of slide_meta ?shape ?chain ?segs"
  let ?st3 = "visit_shape store ?shape ?base ?segs st"
  let ?st4 = "if shape_type ?shape = Some GROUP
              then walk_shapes store children 1 ?segs ?chain slide_meta ?st3 else ?st3"
  note P = "2.prems"(1)
  note d = \<open>descend root index_chain = Some (before @ ?shape # rest)\<close>
  note idx = \<open>shape_idx = Suc (length before)\<close>
  note k = \<open>meta_slide_index slide_meta = k\<close>
  have at: "(before @ ?shape # rest) ! (shape_idx - 1) = ?shape"
    by (simp add: idx)
  have rng: "1 \<le> shape_idx" "shape_idx \<le> length (before @ ?shape # rest)"
    by (simp_all add: idx)
  have st3: "\<forall>e\<in>set (acc_entries ?st3). P e"
    by (rule visit_shape_invariant [OF P d rng at k "2.prems"(5)])
  have st4: "\<forall>e\<in>set (acc_entries ?st4). P e"
  proof (cases "shape_type ?shape = Some GROUP")
    case False
    then show ?thesis using st3 by simp
  next
    case True
    have dc: "descend root ?chain = Some ([] @ children)"
      using d rng at True by (simp add: descend_snoc)
    have "\<forall>e\<in>set (acc_entries (walk_shapes store children 1 ?segs ?chain slide_meta ?st3)). P e"
      unfolding visit_shape_def Let_def
      by (rule "2.IH"(1) [OF refl refl refl refl refl refl refl True P dc _ k
                           st3 [unfolded visit_shape_def Let_def]]) simp_all
    then show ?thesis using True by simp
  qed
  have d2: "descend root index_chain = Some ((before @ [?shape]) @ rest)"
    using d by simp
  have "\<forall>e\<in>set (acc_entries (walk_shapes store rest (shape_idx + 1) path_segments index_chain
                                  slide_meta ?st4)). P e"
    unfolding visit_shape_def Let_def
    by (rule "2.IH"(2) [OF refl refl refl refl refl refl refl refl P d2 _ k
                         st4 [unfolded visit_shape_def Let_def]]) (simp_all add: idx)
  then show ?case
    by (simp add: walk_shapes_Cons Let_def)
qed

lemma foldl_enumerate_invariant:
  "(\<And>acc j. j < length xs \<Longrightarrow> I acc \<Longrightarrow> I (f acc (n + j, xs ! j))) \<Longrightarrow> I acc
   \<Longrightarrow> I (foldl f acc (enumerate n xs))"
proof (induction xs arbitrary: n acc)
  case Nil
  then show ?case by simp
next
  case (Cons x xs)
  have first: "I (f acc (n, x))"
    using Cons.prems(1) [of 0 acc] Cons.prems(2) by simp
  have step: "I (f a (Suc n + j, xs ! j))" if "j < length xs" "I a" for a j
    using Cons.prems(1) [of "Suc j" a] that by simp
  show ?case
    using Cons.IH [of "Suc n" "f acc (n, x)", OF step first] by simp
qed

lemma walk_slides_valid:
  "\<forall>e\<in>set (acc_entries (walk_slides presentation)). valid_entry presentation e"
  unfolding walk_slides_def
proof (rule foldl_enumerate_invariant
         [where I = "\<lambda>st. \<forall>e\<in>set (acc_entries st). valid_entry presentation e"])
  show "\<forall>e\<in>set (acc_entries \<lparr>acc_entries = [], xpath_queries = []\<rparr>). valid_entry presentation e"
    by simp
next
  fix acc :: extraction and j
  assume j: "j < length (slides presentation)"
    and acc: "\<forall>e\<in>set (acc_entries acc). valid_entry presentation e"
  let ?slide = "slides presentation ! j"
  have P: "valid_entry presentation e"
    if "addresses (parts presentation) (slide_shapes ?slide) (Suc j) e" for e
    unfolding valid_entry_def using that j by (intro exI [of _ "Suc j"]) simp
  have "\<forall>e\<in>set (acc_entries
           (walk_shapes (parts presentation) (slide_shapes ?slide) 1
              [''slide['' @ str_nat (Suc j) @ '']''] []
              \<lparr>meta_slide_index = Suc j, meta_slide_id = slide_id ?slide,
                 meta_slide_layout = slide_layout ?slide\<rparr> acc)). valid_entry presentation e"
    by (rule walk_shapes_invariant [where before = "[]" and k = "Suc j", OF P _ _ _ acc])
       simp_all
  then show "\<forall>e\<in>set (acc_entries
        (case (1 + j, ?slide) of
         (slide_idx, slide) \<Rightarrow>
           walk_shapes (parts presentation) (slide_shapes slide) 1
            [''slide['' @ str_nat slide_idx @ '']''] []
            \<lparr>meta_slide_index = slide_idx, meta_slide_id = slide_id slide,
               meta_slide_layout = slide_layout slide\<rparr> acc)). valid_entry presentation e"
    by simp
qed

lemma valid_entry_text:
  "valid_entry presentation e \<Longrightarrow>
     \<exists>fields s. e = JObj fields \<and> map_of fields ''text'' = Some (JStr s) \<and> s \<noteq> []"
  unfolding valid_entry_def addresses_def names_text_def by blast

text \<open>
  Claim C10. Every entry of the map that \<^verbatim>\<open>build_text_map\<close> returns is a dict whose
  \<open>text\<close> field is a non-empty string, whatever the container: text-frame runs,
  table-cell runs and chart text nodes alike.
\<close>

theorem build_text_map_text_nonempty:
  "\<exists>entries. map_of (the_dict (build_text_map pptx_path presentation)) ''entries''
                 = Some (JList entries)
     \<and> (\<forall>e\<in>set entries. \<exists>fields s.
           e = JObj fields \<and> map_of fields ''text'' = Some (JStr s) \<and> s \<noteq> [])"
proof -
  have "map_of (the_dict (build_text_map pptx_path presentation)) ''entries''
          = Some (JList (acc_entries (walk_slides presentation)))"
    by (simp add: build_text_map_def Let_def)
  moreover have "\<forall>e\<in>set (acc_entries (walk_slides presentation)). \<exists>fields s.
           e = JObj fields \<and> map_of fields ''text'' = Some (JStr s) \<and> s \<noteq> []"
    using walk_slides_valid [of presentation] valid_entry_text by blast
  ultimately show ?thesis by blast
qed

theorem build_text_map_text_nonempty_witness:
  "\<exists>entries fields s.
     map_of (the_dict (build_text_map ''deck.pptx'' demo_presentation)) ''entries''
       = Some (JList entries)
     \<and> length entries = 4
     \<and> entries ! 0 = JObj fields \<and> map_of fields ''text'' = Some (JStr s) \<and> s \<noteq> []"
proof -
  from build_text_map_text_nonempty [of "''deck.pptx''" demo_presentation]
  obtain entries where
    e1: "map_of (the_dict (build_text_map ''deck.pptx'' demo_presentation)) ''entries''
           = Some (JList entries)"
    and e2: "\<forall>e\<in>set entries. \<exists>fields s.
           e = JObj fields \<and> map_of fields ''text'' = Some (JStr s) \<and> s \<noteq> []"
    by (elim exE conjE)
  have "map_of (the_dict (build_text_map ''deck.pptx'' demo_presentation)) ''entries''
          = Some (JList (acc_entries (walk_slides demo_presentation)))"
    by (simp add: build_text_map_def Let_def)
  with e1 have "entries = acc_entries (walk_slides demo_presentation)" by simp
  moreover have "length (acc_entries (walk_slides demo_presentation)) = 4" by code_simp
  ultimately have len: "length entries = 4" by simp
  then have "entries ! 0 \<in> set entries" by simp
  with e2 obtain fields s where
    "entries ! 0 = JObj fields" "map_of fields ''text'' = Some (JStr s)" "s \<noteq> []"
    by blast
  with e1 len show ?thesis by blast
qed

section \<open>Properties of resolve\_shape\<close>

lemma resolve_loop_spec:
  "chain \<noteq> [] \<Longrightarrow> depth + length chain = Suc n \<Longrightarrow>
   resolve_loop shapes target depth n (map JInt chain)
     = (case resolve_spec shapes depth chain of Inl err \<Rightarrow> Inl err | Inr t \<Rightarrow> Inr (Some t))"
proof (induction chain arbitrary: shapes target depth)
  case Nil
  then show ?case by simp
next
  case (Cons i rest)
  show ?case
  proof (cases "rest = []")
    case True
    with Cons.prems show ?thesis
      by (simp add: out_of_range_def Let_def)
  next
    case False
    with Cons.prems have lt: "depth < n" by (cases rest) auto
    have "resolve_loop (group_shapes (shapes ! nat (i - 1))) (Some (shapes ! nat (i - 1)))
            (depth + 1) n (map JInt rest)
          = (case resolve_spec (group_shapes (shapes ! nat (i - 1))) (depth + 1) rest of
               Inl err \<Rightarrow> Inl err | Inr t \<Rightarrow> Inr (Some t))"
      using Cons.prems False by (intro Cons.IH) auto
    with False lt show ?thesis
      by (simp add: out_of_range_def Let_def)
  qed
qed

text \<open>
  Claim C7. On a chain of integer positions the loop of \<^verbatim>\<open>resolve_shape\<close> computes
  exactly \<open>resolve_spec\<close>: each element is range-checked against the current shape
  sequence (an AssertionError naming the index and the depth otherwise), each element
  before the last must select a group (the AssertionError "Intermediate shape must be
  a group" otherwise, never a skip), and the last element yields the target shape.
\<close>

theorem resolve_shape_refines:
  "resolve_shape slide (map JInt chain) = resolve_spec (slide_shapes slide) 1 chain"
proof (cases "chain = []")
  case True
  then show ?thesis by (simp add: resolve_shape_def)
next
  case False
  then have "resolve_loop (slide_shapes slide) None 1 (length chain) (map JInt chain)
     = (case resolve_spec (slide_shapes slide) 1 chain of
          Inl err \<Rightarrow> Inl err | Inr t \<Rightarrow> Inr (Some t))"
    by (intro resolve_loop_spec) auto
  with False show ?thesis
    by (simp add: resolve_shape_def split: sum.splits)
qed

theorem resolve_shape_refines_witness:
  "resolve_shape (slides demo_presentation ! 0) [JInt 2, JInt 1]
     = Inr (Shape 4 ''Chart'' (Some CHART) None None (Some ''/ppt/charts/chart1.xml'') [])
   \<and> resolve_shape (slides demo_presentation ! 0) [JInt 1, JInt 1]
     = Inl (AssertionError ''Intermediate shape must be a group'')
   \<and> resolve_shape (slides demo_presentation ! 0) [JInt 2, JInt 2]
     = Inl (AssertionError ''Shape index 2 out of range at depth 2'')"
proof -
  have a: "resolve_spec (slide_shapes (slides demo_presentation ! 0)) 1 [2, 1]
     = Inr (Shape 4 ''Chart'' (Some CHART) None None (Some ''/ppt/charts/chart1.xml'') [])"
    by code_simp
  have b: "resolve_spec (slide_shapes (slides demo_presentation ! 0)) 1 [1, 1]
     = Inl (AssertionError ''Intermediate shape must be a group'')"
    by code_simp
  have c: "resolve_spec (slide_shapes (slides demo_presentation ! 0)) 1 [2, 2]
     = Inl (AssertionError ''Shape index 2 out of range at depth 2'')"
    by code_simp
  have "resolve_shape (slides demo_presentation ! 0) (map JInt [2, 1])
          = resolve_spec (slide_shapes (slides demo_presentation ! 0)) 1 [2, 1]"
    by (rule resolve_shape_refines)
  then have a': "resolve_shape (slides demo_presentation ! 0) [JInt 2, JInt 1]
     = Inr (Shape 4 ''Chart'' (Some CHART) None None (Some ''/ppt/charts/chart1.xml'') [])"
    unfolding a by simp
  have "resolve_shape (slides demo_presentation ! 0) (map JInt [1, 1])
          = resolve_spec (slide_shapes (slides demo_presentation ! 0)) 1 [1, 1]"
    by (rule resolve_shape_refines)
  then have b': "resolve_shape (slides demo_presentation ! 0) [JInt 1, JInt 1]
     = Inl (AssertionError ''Intermediate shape must be a group'')"
    unfolding b by simp
  have "resolve_shape (slides demo_presentation ! 0) (map JInt [2, 2])
          = resolve_spec (slide_shapes (slides demo_presentation ! 0)) 1 [2, 2]"
    by (rule resolve_shape_refines)
  then have c': "resolve_shape (slides demo_presentation ! 0) [JInt 2, JInt 2]
     = Inl (AssertionError ''Shape index 2 out of range at depth 2'')"
    unfolding c by simp
  from a' b' c' show ?thesis by (intro conjI)
qed

section \<open>Properties of the projector\<close>

lemma apply_entries_all:
  "apply_entries entries st0 = (None, final) \<Longrightarrow>
   \<forall>i<length entries. \<exists>e st st'. entries ! i = JObj e
      \<and> apply_entries (take i entries) st0 = (None, st) \<and> apply_entry e st = (None, st')"
proof (induction entries arbitrary: st0)
  case Nil
  then show ?case by simp
next
  case (Cons entry rest)
  from Cons.prems obtain e where e: "entry = JObj e"
    by (cases entry) auto
  from Cons.prems e obtain st1 where st1: "apply_entry e st0 = (None, st1)"
      and rest: "apply_entries rest st1 = (None, final)"
    by (auto split: prod.splits option.splits)
  show ?case
  proof (intro allI impI)
    fix i assume i: "i < length (entry # rest)"
    show "\<exists>e st st'. (entry # rest) ! i = JObj e
      \<and> apply_entries (take i (entry # rest)) st0 = (None, st) \<and> apply_entry e st = (None, st')"
    proof (cases i)
      case 0
      then show ?thesis using e st1 by simp
    next
      case (Suc j)
      with i have "j < length rest" by simp
      with Cons.IH [OF rest] obtain e' st st' where
        "rest ! j = JObj e'" "apply_entries (take j rest) st1 = (None, st)"
        "apply_entry e' st = (None, st')" by blast
      then show ?thesis using Suc e st1 by simp
    qed
  qed
qed

lemma apply_text_map_cases:
  "(\<exists>err. apply_text_map presentation data
      = \<lparr>raised = Some err, memory = initial_state presentation, saved = None\<rparr>
      \<and> (load_json data = Inl err
          \<or> (\<exists>text_map entries. load_json data = Inr text_map
                \<and> map_of text_map ''entries'' = Some (JList entries)
                \<and> check_entry_count text_map entries = Some err)))
   \<or> (\<exists>text_map entries res st. load_json data = Inr text_map
        \<and> map_of text_map ''entries'' = Some (JList entries)
        \<and> check_entry_count text_map entries = None
        \<and> apply_entries entries (initial_state presentation) = (res, st)
        \<and> apply_text_map presentation data
            = \<lparr>raised = res, memory = st,
               saved = (case res of None \<Rightarrow> Some (doc st) | Some err \<Rightarrow> None)\<rparr>)"
proof (cases "load_json data")
  case (Inl err)
  then show ?thesis
    by (simp add: apply_text_map_def initial_state_def)
next
  case (Inr text_map)
  then obtain entries where en: "map_of text_map ''entries'' = Some (JList entries)"
    by (auto simp: load_json_def split: json.splits option.splits)
  show ?thesis
  proof (cases "check_entry_count text_map entries")
    case (Some err)
    then show ?thesis
      using Inr en by (simp add: apply_text_map_def initial_state_def)
  next
    case None
    obtain res st where r: "apply_entries entries (initial_state presentation) = (res, st)"
      by (cases "apply_entries entries (initial_state presentation)")
    show ?thesis
      using Inr en None r
      by (cases res) (simp_all add: apply_text_map_def initial_state_def)
  qed
qed

text \<open>
  Claim C6. A run of \<^verbatim>\<open>apply_text_map\<close> saves a document exactly when it raises nothing.
  What it saves is the document in memory after the loop, and then every entry of the
  map was applied without an exception, each on the state its predecessors left. A
  run that raises, at whatever entry, saves nothing.
\<close>

theorem apply_text_map_atomic:
  "(raised (apply_text_map presentation data) = None
      \<longleftrightarrow> saved (apply_text_map presentation data) \<noteq> None)
   \<and> (\<forall>out. saved (apply_text_map presentation data) = Some out \<longrightarrow>
         out = doc (memory (apply_text_map presentation data))
       \<and> (\<exists>text_map entries. load_json data = Inr text_map
             \<and> map_of text_map ''entries'' = Some (JList entries)
             \<and> (\<forall>i<length entries. \<exists>e st st'. entries ! i = JObj e
                   \<and> apply_entries (take i entries) (initial_state presentation) = (None, st)
                   \<and> apply_entry e st = (None, st'))))"
proof -
  from apply_text_map_cases [of presentation data]
  consider (abort) err where
      "apply_text_map presentation data
         = \<lparr>raised = Some err, memory = initial_state presentation, saved = None\<rparr>"
    | (run) text_map entries res st where
        "load_json data = Inr text_map" "map_of text_map ''entries'' = Some (JList entries)"
        "apply_entries entries (initial_state presentation) = (res, st)"
        "apply_text_map presentation data
            = \<lparr>raised = res, memory = st,
               saved = (case res of None \<Rightarrow> Some (doc st) | Some err \<Rightarrow> None)\<rparr>"
    by blast
  then show ?thesis
  proof cases
    case abort
    then show ?thesis by simp
  next
    case run
    show ?thesis
    proof (cases res)
      case None
      with run(3) have all: "\<forall>i<length entries. \<exists>e st st'. entries ! i = JObj e
                   \<and> apply_entries (take i entries) (initial_state presentation) = (None, st)
                   \<and> apply_entry e st = (None, st')"
        by (intro apply_entries_all) simp
      show ?thesis
        using run(1,2) all by (simp add: run(4) None)
    next
      case (Some err)
      then show ?thesis by (simp add: run(4))
    qed
  qed
qed

lemma update_update_same:
  "AList.update k v (AList.update k c d) = AList.update k v d"
  by (induction d) auto

lemma update_stale:
  "k' \<in> fst ` set d \<Longrightarrow> k \<noteq> k' \<Longrightarrow>
   AList.update k v (AList.update k' v' (AList.update k c d))
     = AList.update k v (AList.update k' v' d)"
proof (induction d)
  case Nil
  then show ?case by simp
next
  case (Cons p d)
  then show ?case
    by (cases p) (auto simp: update_update_same)
qed

lemma merge_translations_ignores_entry_count:
  "merge_translations (JObj (AList.update ''entry_count'' c d)) vs
     = merge_translations (JObj d) vs"
proof (cases "map_of d ''entries''")
  case None
  then show ?thesis by (simp add: merge_translations_def update_conv')
next
  case (Some es)
  then have dom: "''entries'' \<in> fst ` set d"
    by (metis domI dom_map_of_conv_image_fst)
  have st: "AList.update ''entry_count'' v (AList.update ''entries'' v' (AList.update ''entry_count'' c d))
     = AList.update ''entry_count'' v (AList.update ''entries'' v' d)" for v v'
    by (rule update_stale [OF dom]) simp
  show ?thesis
    by (cases es) (simp_all add: merge_translations_def update_conv' Some st split: sum.splits)
qed

lemma load_texts_ignores_entry_count:
  "load_texts (JObj (AList.update ''entry_count'' c d)) = load_texts (JObj d)"
  by (simp add: load_texts_def getitem_def update_conv')

lemma check_entry_count_mismatch:
  "map_of text_map ''entry_count'' = Some c \<Longrightarrow> c \<noteq> JNull
   \<Longrightarrow> as_int c \<noteq> Some (int (length entries))
   \<Longrightarrow> \<exists>msg. check_entry_count text_map entries = Some (AssertionError msg)"
  by (cases c) (auto simp: check_entry_count_def split: option.splits)

text \<open>
  Claim C3, amended. Of the three consumers only the projector reads \<open>entry_count\<close>:
  when the field is present, is not null, and is not an integer equal to the number of
  entries, \<^verbatim>\<open>apply_text_map\<close> fails on an assertion before any entry is applied, with
  the document in memory untouched and nothing saved. \<^verbatim>\<open>merge_translations\<close> and
  \<^verbatim>\<open>load_texts\<close> return the same result whatever \<open>entry_count\<close> holds.
\<close>

theorem entry_count_checked_by_projector_only:
  "(\<forall>text_map entries count.
       load_json data = Inr text_map \<and> map_of text_map ''entries'' = Some (JList entries)
     \<and> map_of text_map ''entry_count'' = Some count \<and> count \<noteq> JNull
     \<and> as_int count \<noteq> Some (int (length entries))
     \<longrightarrow> (\<exists>msg. raised (apply_text_map presentation data) = Some (AssertionError msg))
       \<and> saved (apply_text_map presentation data) = None
       \<and> memory (apply_text_map presentation data) = initial_state presentation)
   \<and> merge_translations (JObj (AList.update ''entry_count'' c d)) vs
       = merge_translations (JObj d) vs
   \<and> load_texts (JObj (AList.update ''entry_count'' c d)) = load_texts (JObj d)"
proof (intro conjI allI impI)
  fix text_map entries count
  assume h: "load_json data = Inr text_map \<and> map_of text_map ''entries'' = Some (JList entries)
     \<and> map_of text_map ''entry_count'' = Some count \<and> count \<noteq> JNull
     \<and> as_int count \<noteq> Some (int (length entries))"
  then obtain msg where m: "check_entry_count text_map entries = Some (AssertionError msg)"
    using check_entry_count_mismatch by blast
  have r: "apply_text_map presentation data
      = \<lparr>raised = Some (AssertionError msg), memory = initial_state presentation, saved = None\<rparr>"
    using h m by (simp add: apply_text_map_def initial_state_def)
  show "\<exists>msg. raised (apply_text_map presentation data) = Some (AssertionError msg)"
    by (simp add: r)
  show "saved (apply_text_map presentation data) = None"
    by (simp add: r)
  show "memory (apply_text_map presentation data) = initial_state presentation"
    by (simp add: r)
next
  show "merge_translations (JObj (AList.update ''entry_count'' c d)) vs
       = merge_translations (JObj d) vs"
    by (rule merge_translations_ignores_entry_count)
next
  show "load_texts (JObj (AList.update ''entry_count'' c d)) = load_texts (JObj d)"
    by (rule load_texts_ignores_entry_count)
qed

text \<open>
  Claim C3, as stated, fails: a map with no entries and \<open>entry_count\<close> 5 is merged
  (the count is overwritten with 0) and flattened without complaint.
\<close>

theorem consumers_accept_wrong_entry_count:
  "merge_translations (JObj [(''entry_count'', JInt 5), (''entries'', JList [])]) []
     = Inr (JObj [(''entry_count'', JInt 0), (''entries'', JList [])])
   \<and> load_texts (JObj [(''entry_count'', JInt 5), (''entries'', JList [])]) = Inr []"
  by (simp add: merge_translations_def load_texts_def getitem_def)

lemma xpath_queries_visit_shape:
  "xpath_queries (visit_shape store shape base_entry segs st)
     = xpath_queries st @ (case chart shape of Some partname \<Rightarrow> [partname] | None \<Rightarrow> [])"
  by (simp add: visit_shape_def record_chart_text_def Let_def split: option.splits)

lemma xpath_queries_walk_shapes:
  "xpath_queries (walk_shapes store ss idx segs chain meta st)
     = xpath_queries st @ chart_parts_of ss"
proof (induction store ss idx segs chain meta st rule: walk_shapes.induct)
  case (1 store shape_idx path_segments index_chain slide_meta st)
  then show ?case by simp
next
  case (2 store sid nm ty tf tb ch children rest shape_idx path_segments index_chain
          slide_meta st)
  let ?shape = "Shape sid nm ty tf tb ch children"
  let ?segs = "path_segments @ [''shape['' @ str_nat shape_idx @ '']'']"
  let ?chain = "index_chain @ [shape_idx]"
  let ?st3 = "visit_shape store ?shape (base_entry_of slide_meta ?shape ?chain ?segs) ?segs st"
  let ?st4 = "if shape_type ?shape = Some GROUP
              then walk_shapes store children 1 ?segs ?chain slide_meta ?st3 else ?st3"
  have q3: "xpath_queries ?st3
              = xpath_queries st @ (case ch of Some partname \<Rightarrow> [partname] | None \<Rightarrow> [])"
    by (simp add: xpath_queries_visit_shape)
  have q4: "xpath_queries ?st4
              = xpath_queries ?st3 @ (if ty = Some GROUP then chart_parts_of children else [])"
  proof (cases "ty = Some GROUP")
    case True
    have "xpath_queries (walk_shapes store children 1 ?segs ?chain slide_meta ?st3)
            = xpath_queries ?st3 @ chart_parts_of children"
      unfolding visit_shape_def Let_def
      by (rule "2.IH"(1) [OF refl refl refl refl refl refl refl]) (simp add: True)
    then show ?thesis using True by simp
  next
    case False
    then show ?thesis by simp
  qed
  have last: "xpath_queries (walk_shapes store rest (shape_idx + 1) path_segments index_chain
                         slide_meta ?st4)
          = xpath_queries ?st4 @ chart_parts_of rest"
    unfolding visit_shape_def Let_def
    by (rule "2.IH"(2) [OF refl refl refl refl refl refl refl refl])
  have eq: "walk_shapes store (?shape # rest) shape_idx path_segments index_chain slide_meta st
          = walk_shapes store rest (shape_idx + 1) path_segments index_chain slide_meta ?st4"
    by (simp only: walk_shapes_Cons Let_def shape.sel)
  have "xpath_queries (walk_shapes store (?shape # rest) shape_idx path_segments index_chain
                         slide_meta st)
          = xpath_queries ?st4 @ chart_parts_of rest"
    unfolding eq by (rule last)
  also have "\<dots> = (xpath_queries ?st3
                      @ (if ty = Some GROUP then chart_parts_of children else []))
                    @ chart_parts_of rest"
    by (simp only: q4)
  also have "\<dots> = ((xpath_queries st @ (case ch of Some partname \<Rightarrow> [partname] | None \<Rightarrow> []))
                      @ (if ty = Some GROUP then chart_parts_of children else []))
                    @ chart_parts_of rest"
    by (simp only: q3)
  finally show ?case by simp
qed

lemma xpath_queries_foldl:
  assumes step: "\<And>st i x. xpath_queries (f st (i, x)) = xpath_queries st @ g x"
  shows "xpath_queries (foldl f st (enumerate n xs)) = xpath_queries st @ concat (map g xs)"
  by (induction xs arbitrary: n st) (simp_all add: step)

lemma xpath_queries_walk_slides:
  "xpath_queries (walk_slides presentation)
     = concat (map (\<lambda>slide. chart_parts_of (slide_shapes slide)) (slides presentation))"
  unfolding walk_slides_def
  by (subst xpath_queries_foldl [where g = "\<lambda>slide. chart_parts_of (slide_shapes slide)"])
     (simp_all add: xpath_queries_walk_shapes)

lemma get_chart_nodes_cached:
  "map_of (chart_cache st) key = Some nodes \<Longrightarrow> get_chart_nodes key st = (nodes, st)"
  by (simp add: get_chart_nodes_def)

lemma get_chart_nodes_consistent:
  "cache_consistent st \<Longrightarrow> get_chart_nodes key st = (nodes, st') \<Longrightarrow> cache_consistent st'"
proof (cases "map_of (chart_cache st) key")
  case None
  assume c: "cache_consistent st" and g: "get_chart_nodes key st = (nodes, st')"
  from None have "key \<notin> fst ` set (chart_cache st)"
    by (simp add: map_of_eq_None_iff)
  with c have nk: "key \<notin> set (part_queries st)"
    by (simp add: cache_consistent_def)
  from g None have st': "st' = st\<lparr>chart_cache := AList.update key nodes (chart_cache st),
                                   part_queries := part_queries st @ [key]\<rparr>"
    by (auto simp: get_chart_nodes_def Let_def)
  show "cache_consistent st'"
    using c nk by (auto simp: st' cache_consistent_def dom_update [simplified dom_map_of_conv_image_fst]
                        image_iff)
next
  case (Some cached)
  assume c: "cache_consistent st" and g: "get_chart_nodes key st = (nodes, st')"
  from g Some have "st' = st" by (simp add: get_chart_nodes_def)
  with c show "cache_consistent st'" by simp
qed

lemma cache_consistent_doc [simp]:
  "cache_consistent (st\<lparr>doc := d\<rparr>) = cache_consistent st"
  by (simp add: cache_consistent_def)

lemma apply_chart_entry_state:
  "apply_chart_entry shape entry st = (res, st') \<Longrightarrow>
     st' = st \<or> (\<exists>key nodes st1. get_chart_nodes key st = (nodes, st1)
                   \<and> (st' = st1 \<or> (\<exists>d. st' = st1\<lparr>doc := d\<rparr>)))"
  unfolding apply_chart_entry_def
  by (auto split: option.splits sum.splits if_splits prod.splits json.splits)

lemma apply_chart_entry_consistent:
  "cache_consistent st \<Longrightarrow> apply_chart_entry shape entry st = (res, st')
   \<Longrightarrow> cache_consistent st'"
  using apply_chart_entry_state [of shape entry st res st'] get_chart_nodes_consistent [of st]
  by auto

lemma apply_entry_state:
  "apply_entry entry st = (res, st') \<Longrightarrow>
     st' = st \<or> (\<exists>d. st' = st\<lparr>doc := d\<rparr>)
     \<or> (\<exists>shape res'. apply_chart_entry shape entry st = (res', st'))"
  unfolding apply_entry_def put_shape_def Let_def
  by (auto split: option.splits sum.splits if_splits json.splits)

lemma apply_entry_consistent:
  "cache_consistent st \<Longrightarrow> apply_entry entry st = (res, st') \<Longrightarrow> cache_consistent st'"
  using apply_entry_state [of entry st res st'] apply_chart_entry_consistent [of st]
  by auto

lemma apply_entries_consistent:
  "cache_consistent st \<Longrightarrow> apply_entries entries st = (res, st') \<Longrightarrow> cache_consistent st'"
proof (induction entries arbitrary: st)
  case Nil
  then show ?case by simp
next
  case (Cons entry rest)
  show ?case
  proof (cases entry)
    case (JObj e)
    obtain r1 st1 where a: "apply_entry e st = (r1, st1)"
      by (cases "apply_entry e st")
    have c1: "cache_consistent st1"
      using apply_entry_consistent [OF Cons.prems(1) a] .
    show ?thesis
    proof (cases r1)
      case None
      with Cons.prems(2) JObj a have "apply_entries rest st1 = (res, st')" by simp
      then show ?thesis using Cons.IH c1 by blast
    next
      case (Some err)
      with Cons.prems(2) JObj a have "st' = st1" by simp
      then show ?thesis using c1 by simp
    qed
  qed (use Cons.prems in auto)
qed

lemma apply_text_map_consistent:
  "cache_consistent (memory (apply_text_map presentation data))"
proof -
  have init: "cache_consistent (initial_state presentation)"
    by (simp add: cache_consistent_def initial_state_def)
  have "memory (apply_text_map presentation data) = initial_state presentation
        \<or> (\<exists>entries res. apply_entries entries (initial_state presentation)
                             = (res, memory (apply_text_map presentation data)))"
    using apply_text_map_cases [of presentation data] by auto
  then show ?thesis
    using init apply_entries_consistent [OF init] by auto
qed

text \<open>
  Claim C4, amended. The extractor has no cache: it queries the backing part once for
  every chart shape it visits, so a part that backs several chart shapes is queried
  once for each of them. Only the projector caches: in a run of \<^verbatim>\<open>apply_text_map\<close> no
  part is queried twice, and \<^verbatim>\<open>get_chart_nodes\<close> on a cached part returns the cached node
  list and leaves the state, the log of queries included, as it is.
\<close>

theorem chart_part_queries:
  "xpath_queries (walk_slides presentation)
     = concat (map (\<lambda>slide. chart_parts_of (slide_shapes slide)) (slides presentation))
   \<and> distinct (part_queries (memory (apply_text_map presentation data)))
   \<and> (\<forall>key st nodes. map_of (chart_cache st) key = Some nodes
         \<longrightarrow> get_chart_nodes key st = (nodes, st))"
  using xpath_queries_walk_slides [of presentation]
    apply_text_map_consistent [of presentation data] get_chart_nodes_cached
  by (simp add: cache_consistent_def)

text \<open>
  Claim C4, as stated, fails: in the sample document two chart shapes are backed by
  one part, and extraction queries that part twice.
\<close>

theorem extraction_queries_part_twice:
  "xpath_queries (walk_slides demo_presentation)
     = [''/ppt/charts/chart1.xml'', ''/ppt/charts/chart1.xml'']"
  by code_simp

theorem chart_part_queries_witness:
  "xpath_queries (walk_slides demo_presentation)
     = [''/ppt/charts/chart1.xml'', ''/ppt/charts/chart1.xml'']
   \<and> part_queries (memory (apply_text_map demo_presentation
                               (build_text_map ''deck.pptx'' demo_presentation)))
     = [''/ppt/charts/chart1.xml'']
   \<and> get_chart_nodes ''/ppt/charts/chart1.xml''
        (memory (apply_text_map demo_presentation
                   (build_text_map ''deck.pptx'' demo_presentation)))
     = ([(''/ppt/charts/chart1.xml'', 0), (''/ppt/charts/chart1.xml'', 1)],
        memory (apply_text_map demo_presentation
                  (build_text_map ''deck.pptx'' demo_presentation)))"
proof -
  let ?r = "apply_text_map demo_presentation (build_text_map ''deck.pptx'' demo_presentation)"
  note t = chart_part_queries [of demo_presentation "build_text_map ''deck.pptx'' demo_presentation"]
  have a: "concat (map (\<lambda>slide. chart_parts_of (slide_shapes slide)) (slides demo_presentation))
        = [''/ppt/charts/chart1.xml'', ''/ppt/charts/chart1.xml'']"
    by code_simp
  have b: "part_queries (memory ?r) = [''/ppt/charts/chart1.xml'']"
    by code_simp
  have c: "map_of (chart_cache (memory ?r)) ''/ppt/charts/chart1.xml''
        = Some [(''/ppt/charts/chart1.xml'', 0), (''/ppt/charts/chart1.xml'', 1)]"
    by code_simp
  from t have "xpath_queries (walk_slides demo_presentation)
     = concat (map (\<lambda>slide. chart_parts_of (slide_shapes slide)) (slides demo_presentation))"
    by (rule conjunct1)
  then have a': "xpath_queries (walk_slides demo_presentation)
     = [''/ppt/charts/chart1.xml'', ''/ppt/charts/chart1.xml'']"
    unfolding a .
  from t have "\<forall>key st nodes. map_of (chart_cache st) key = Some nodes
         \<longrightarrow> get_chart_nodes key st = (nodes, st)"
    by (elim conjE)
  with c have c': "get_chart_nodes ''/ppt/charts/chart1.xml'' (memory ?r)
     = ([(''/ppt/charts/chart1.xml'', 0), (''/ppt/charts/chart1.xml'', 1)], memory ?r)"
    by blast
  from a' b c' show ?thesis by (intro conjI)
qed

theorem apply_text_map_atomic_witness:
  "raised (apply_text_map demo_presentation demo_bad_map)
     = Some (AssertionError ''slide_index out of range'')
   \<and> saved (apply_text_map demo_presentation demo_bad_map) = None
   \<and> text_frame (slide_shapes (slides (doc (memory
         (apply_text_map demo_presentation demo_bad_map))) ! 0) ! 0)
     = Some [['''', ''Bonjour'']]"
proof -
  have a: "raised (apply_text_map demo_presentation demo_bad_map)
     = Some (AssertionError ''slide_index out of range'')"
    by code_simp
  have "raised (apply_text_map demo_presentation demo_bad_map) = None
      \<longleftrightarrow> saved (apply_text_map demo_presentation demo_bad_map) \<noteq> None"
    using apply_text_map_atomic [of demo_presentation demo_bad_map] by (rule conjunct1)
  with a have b: "saved (apply_text_map demo_presentation demo_bad_map) = None"
    by simp
  have c: "text_frame (slide_shapes (slides (doc (memory
         (apply_text_map demo_presentation demo_bad_map))) ! 0) ! 0)
     = Some [['''', ''Bonjour'']]"
    by code_simp
  from a b c show ?thesis by (intro conjI)
qed

theorem entry_count_checked_by_projector_only_witness:
  "(\<exists>msg. raised (apply_text_map demo_presentation
                    (JObj [(''entry_count'', JInt 5), (''entries'', JList [])]))
            = Some (AssertionError msg))
   \<and> saved (apply_text_map demo_presentation
              (JObj [(''entry_count'', JInt 5), (''entries'', JList [])])) = None
   \<and> memory (apply_text_map demo_presentation
               (JObj [(''entry_count'', JInt 5), (''entries'', JList [])]))
       = initial_state demo_presentation"
proof -
  let ?d = "[(''entry_count'', JInt 5), (''entries'', JList [])]"
  have h: "load_json (JObj ?d) = Inr ?d \<and> map_of ?d ''entries'' = Some (JList [])
     \<and> map_of ?d ''entry_count'' = Some (JInt 5) \<and> JInt 5 \<noteq> JNull
     \<and> as_int (JInt 5) \<noteq> Some (int (length ([] :: json list)))"
    by (simp add: load_json_def)
  from entry_count_checked_by_projector_only [of "JObj ?d" demo_presentation JNull "[]" "[]"]
  have "\<forall>text_map entries count.
       load_json (JObj ?d) = Inr text_map \<and> map_of text_map ''entries'' = Some (JList entries)
     \<and> map_of text_map ''entry_count'' = Some count \<and> count \<noteq> JNull
     \<and> as_int count \<noteq> Some (int (length entries))
     \<longrightarrow> (\<exists>msg. raised (apply_text_map demo_presentation (JObj ?d)) = Some (AssertionError msg))
       \<and> saved (apply_text_map demo_presentation (JObj ?d)) = None
       \<and> memory (apply_text_map demo_presentation (JObj ?d)) = initial_state demo_presentation"
    by (rule conjunct1)
  then show ?thesis using h by blast
qed

section \<open>The round trip\<close>


















lemma cache_ok_same_doc:
  "cache_ok st \<Longrightarrow> cache_ok (st\<lparr>doc := doc st\<rparr>)"
  by simp













text \<open>
  It fails on a run that holds a carriage return too: the projection succeeds, and the
  run setter has stored the escaped text, so the saved document extracts differently.
\<close>

lemma carriage_return_run_rewritten:
  "load_texts (build_text_map ''deck.pptx'' cr_presentation)
     = Inr [JStr [CHR ''a'', CHR 0x0D, CHR ''b'']]
   \<and> raised (apply_text_map cr_presentation (build_text_map ''deck.pptx'' cr_presentation))
       = None
   \<and> (case saved (apply_text_map cr_presentation
                     (build_text_map ''deck.pptx'' cr_presentation)) of
        Some output \<Rightarrow> load_texts (build_text_map ''deck.pptx'' output)
      | None \<Rightarrow> Inr [])
       = Inr [JStr ''a_x000D_b'']"
  by code_simp



lemma not_well_formed:
  "\<not> wf_presentation ragged_presentation \<and> \<not> wf_presentation cr_presentation"
  by code_simp

end
